theory Spec2Isabelle
  imports Complex_Main "HOL-Library.Sublist"
begin

section \<open>Values, records and errors of the connector\<close>

text \<open>
  The connector (\<^verbatim>\<open>src/connector.ts\<close>, and its untyped twin) works on JavaScript strings,
  on plain objects used as dictionaries, and on the primitive values that the typed
  interfaces \<^verbatim>\<open>IControlInfo\<close>, \<^verbatim>\<open>ISensorInfo\<close> and the signatures of \<^verbatim>\<open>PARSER\<close> admit:
  \<^verbatim>\<open>undefined\<close>, \<^verbatim>\<open>null\<close>, booleans, numbers and strings.

  \<^item> A string is a \<^typ>\<open>string\<close>: the bytes of its UTF-8 form. Every character the code
    looks at (comma, equals sign, percent sign, digits, the prefix \<^verbatim>\<open>ret=\<close>) is ASCII, and an
    ASCII byte never occurs inside a multi-byte sequence.
  \<^item> A number is \<^verbatim>\<open>NaN\<close>, an infinity, or a finite value kept as an exact rational. The
    code never computes with numbers: it reads them from decimal text (\<^verbatim>\<open>parseInt\<close>,
    \<^verbatim>\<open>parseFloat\<close>), prints them (\<^verbatim>\<open>'' + x\<close>) and compares them with \<^verbatim>\<open>1\<close>. Rounding to the
    nearest IEEE double is not part of the model and \<^verbatim>\<open>-0\<close> is identified with \<^verbatim>\<open>0\<close>; the
    statements about finite numbers below are made for decimal numbers of at most 15
    significant digits, which a double reproduces when it is printed.
  \<^item> An object is a map from property names to values. Reading a name the
    object does not have gives \<^verbatim>\<open>undefined\<close>. The response decoder stores names that
    come from the wire, so its write has the one exception that JavaScript makes, the
    name \<^verbatim>\<open>__proto__\<close> (see \<open>store_text\<close>). Elsewhere the names are the field names of the
    protocol; the names that every object inherits from \<^verbatim>\<open>Object.prototype\<close>
    (\<^verbatim>\<open>__proto__\<close>, \<^verbatim>\<open>toString\<close> and the like) are outside the model there.
\<close>

datatype jsnum = NaN | PosInfinity | NegInfinity | Fin rat

datatype jsval = JUndefined | JNull | JBool bool | JNum jsnum | JStr string

type_synonym jsobj = "string \<rightharpoonup> jsval"

text \<open>\<^verbatim>\<open>x[prop]\<close>\<close>

definition get_prop :: "jsobj \<Rightarrow> string \<Rightarrow> jsval" where
  "get_prop x prop = (case x prop of None \<Rightarrow> JUndefined | Some v \<Rightarrow> v)"

text \<open>
  Every \<^verbatim>\<open>throw\<close> and every rejected promise of the source is an \<open>Inl\<close> value of a sum type.
  The constructors carry the names the specification gives to the failures; the
  messages of the source are:
  \<^item> \<open>HostRequired\<close>: \<^verbatim>\<open>'Host is required'\<close>;
  \<^item> \<open>MethodNotImplemented m\<close>: \<^verbatim>\<open>`Target method ${method} is not implemented`\<close>;
  \<^item> \<open>TransportError e\<close>: the \<^verbatim>\<open>err\<close> handed to the callback of \<^verbatim>\<open>request.get\<close>;
  \<^item> \<open>MalformedResponse\<close>: \<^verbatim>\<open>"Unrecognized data format for the response"\<close>;
  \<^item> \<open>InvalidParameters\<close>: \<^verbatim>\<open>"Wrong parameters"\<close>;
  \<^item> \<open>AdvancedError\<close>: \<^verbatim>\<open>"Wrong ADV"\<close>;
  \<^item> \<open>UnknownStatus s\<close>: \<^verbatim>\<open>`Unrecognized return message: '${ret_msg}'`\<close>;
  \<^item> \<open>URIError\<close>: raised by \<^verbatim>\<open>decodeURIComponent\<close> on a malformed escape sequence.
\<close>

datatype error =
    HostRequired
  | MethodNotImplemented string
  | TransportError string
  | MalformedResponse
  | InvalidParameters
  | AdvancedError
  | UnknownStatus string
  | URIError

section \<open>String primitives of the platform\<close>

text \<open>
  \<^verbatim>\<open>s.split(sep)\<close> for a one-character separator: the pieces between all occurrences of
  the separator, in order. The result is never empty: \<^verbatim>\<open>''.split(',')\<close> is \<^verbatim>\<open>['']\<close>.
\<close>

fun js_split :: "char \<Rightarrow> string \<Rightarrow> string list" where
  "js_split sep [] = [[]]"
| "js_split sep (c # cs) =
     (let ps = js_split sep cs in
      if c = sep then [] # ps else (c # hd ps) # tl ps)"

text \<open>
  \<^verbatim>\<open>decodeURIComponent\<close>, after the \<^verbatim>\<open>Decode\<close> operation of ECMAScript with an empty
  reserved set. An escape \<^verbatim>\<open>%XX\<close> needs two hexadecimal digits. A byte below 128 stands
  for itself; a byte from 128 on must start a well-formed UTF-8 sequence whose further
  bytes are escapes as well. Anything else is a \<^verbatim>\<open>URIError\<close>, here \<open>None\<close>.
\<close>

definition hex_digit :: "char \<Rightarrow> nat option" where
  "hex_digit c =
     (let n = (of_char c :: nat) in
      if 48 \<le> n \<and> n \<le> 57 then Some (n - 48)
      else if 65 \<le> n \<and> n \<le> 70 then Some (n - 55)
      else if 97 \<le> n \<and> n \<le> 102 then Some (n - 87)
      else None)"

fun escape_byte :: "string \<Rightarrow> (nat \<times> string) option" where
  "escape_byte (p # h # l # rest) =
     (if p = CHR ''%'' then
        (case hex_digit h of
           None \<Rightarrow> None
         | Some a \<Rightarrow> (case hex_digit l of None \<Rightarrow> None | Some b \<Rightarrow> Some (16 * a + b, rest)))
      else None)"
| "escape_byte _ = None"

fun continuation_bytes :: "nat \<Rightarrow> string \<Rightarrow> (nat list \<times> string) option" where
  "continuation_bytes 0 s = Some ([], s)"
| "continuation_bytes (Suc n) s =
     (case escape_byte s of
        None \<Rightarrow> None
      | Some (b, rest) \<Rightarrow>
          if 128 \<le> b \<and> b < 192 then
            (case continuation_bytes n rest of
               None \<Rightarrow> None
             | Some (bs, rest') \<Rightarrow> Some (b # bs, rest'))
          else None)"

text \<open>The number of leading one bits of a byte from 128 on (5 stands for "more than 4").\<close>

definition leading_ones :: "nat \<Rightarrow> nat" where
  "leading_ones b =
     (if b < 192 then 1 else if b < 224 then 2 else if b < 240 then 3
      else if b < 248 then 4 else 5)"

text \<open>
  Well-formed UTF-8 for a lead byte and its continuation bytes (each already known to
  lie in 128..191): no overlong form, no surrogate, nothing beyond U+10FFFF.
\<close>

definition utf8_well_formed :: "nat list \<Rightarrow> bool" where
  "utf8_well_formed bs =
     (case bs of
        [a, b] \<Rightarrow> 194 \<le> a
      | [a, b, c] \<Rightarrow>
          (a = 224 \<and> 160 \<le> b) \<or> (225 \<le> a \<and> a \<le> 236) \<or> (a = 237 \<and> b \<le> 159) \<or> 238 \<le> a
      | [a, b, c, d] \<Rightarrow>
          (a = 240 \<and> 144 \<le> b) \<or> (241 \<le> a \<and> a \<le> 243) \<or> (a = 244 \<and> b \<le> 143)
      | _ \<Rightarrow> False)"

function decodeURIComponent :: "string \<Rightarrow> string option" where
  "decodeURIComponent [] = Some []"
| "decodeURIComponent (c # cs) =
     (if c \<noteq> CHR ''%'' then map_option ((#) c) (decodeURIComponent cs)
      else
        (case escape_byte (c # cs) of
           None \<Rightarrow> None
         | Some (b, rest) \<Rightarrow>
             if b < 128 then map_option ((#) (char_of b)) (decodeURIComponent rest)
             else if leading_ones b = 1 \<or> 4 < leading_ones b then None
             else
               (case continuation_bytes (leading_ones b - 1) rest of
                  None \<Rightarrow> None
                | Some (bs, rest') \<Rightarrow>
                    if utf8_well_formed (b # bs)
                    then map_option ((@) (map char_of (b # bs))) (decodeURIComponent rest')
                    else None)))"
  by pat_completeness auto
termination
proof (relation "measure length")
  have esc: "length rest < length s" if "escape_byte s = Some (b, rest)"
    for s rest :: string and b :: nat
    using that by (induction s rule: escape_byte.induct) (auto split: if_splits option.splits)
  have cont: "length rest \<le> length s" if "continuation_bytes n s = Some (bs, rest)"
    for s rest :: string and n :: nat and bs :: "nat list"
    using that
  proof (induction n arbitrary: s bs rest)
    case 0
    then show ?case by simp
  next
    case (Suc n)
    then show ?case
      by (fastforce split: option.splits if_splits dest: esc)
  qed
  show "wf (measure length)" by simp
  show "(cs, c # cs) \<in> measure length" for c :: char and cs :: string
    by simp
  show "(rest, c # cs) \<in> measure length"
    if "escape_byte (c # cs) = Some x2" and "(b, rest) = x2"
    for c :: char and cs rest :: string and x2 :: "nat \<times> string" and b :: nat
  proof -
    from that have "length rest < length (c # cs)"
      using esc by metis
    then show ?thesis by simp
  qed
  show "(rest', c # cs) \<in> measure length"
    if "escape_byte (c # cs) = Some x2" and "(b, rest) = x2"
      and "continuation_bytes (leading_ones b - 1) rest = Some x2a" and "(bs, rest') = x2a"
    for c :: char and cs rest rest' :: string and x2 :: "nat \<times> string" and b :: nat
      and x2a :: "nat list \<times> string" and bs :: "nat list"
  proof -
    from that have "length rest < length (c # cs)" and "length rest' \<le> length rest"
      using esc cont by metis+
    then show ?thesis by simp
  qed
qed

section \<open>The response decoder\<close>

text \<open>
  The \<^verbatim>\<open>.then(response => ...)\<close> of \<^verbatim>\<open>send_request\<close>. The constants are
  \<^verbatim>\<open>RET_MSG_OK\<close>, \<^verbatim>\<open>RET_MSG_PARAM_NG\<close> and \<^verbatim>\<open>RET_MSG_ADV_NG\<close>.
\<close>

definition RET_MSG_OK :: string where
  "RET_MSG_OK = ''OK''"

definition RET_MSG_PARAM_NG :: string where
  "RET_MSG_PARAM_NG = ''PARAM NG''"

definition RET_MSG_ADV_NG :: string where
  "RET_MSG_ADV_NG = ''ADV_NG''"

text \<open>
  \<^verbatim>\<open>rsp.slice(1).map(s => s.split('=').map(decodeURIComponent))\<close>: every piece of every
  part is decoded, before any part is filtered out, so one malformed escape anywhere
  after the first part fails the whole response.
\<close>

definition decode_part :: "string \<Rightarrow> string list option" where
  "decode_part s = those (map decodeURIComponent (js_split (CHR ''='') s))"

definition decode_parts :: "string list \<Rightarrow> string list list option" where
  "decode_parts parts = those (map decode_part parts)"

text \<open>
  \<^verbatim>\<open>r[k] = v\<close> for a string \<open>v\<close> on the plain object \<open>r\<close>. The name \<^verbatim>\<open>__proto__\<close> is an
  accessor that every plain object inherits from \<^verbatim>\<open>Object.prototype\<close>: its setter ignores
  a value that is neither an object nor \<^verbatim>\<open>null\<close>, so for this name nothing is stored.
  Every other name becomes (or stays) a property of \<open>r\<close> with the value \<open>v\<close>.
\<close>

definition store_text :: "jsobj \<Rightarrow> string \<Rightarrow> string \<Rightarrow> jsobj" where
  "store_text r k v = (if k = ''__proto__'' then r else r(k \<mapsto> JStr v))"

text \<open>
  \<^verbatim>\<open>.filter(x => x.length === 2).forEach(x => { r[x[0]] = x[1]; })\<close> starting from
  \<^verbatim>\<open>r = {}\<close>.
\<close>

definition collect_pairs :: "string list list \<Rightarrow> jsobj" where
  "collect_pairs xs =
     foldl (\<lambda>r x. store_text r (x ! 0) (x ! 1)) Map.empty (filter (\<lambda>x. length x = 2) xs)"

definition decode_response :: "string \<Rightarrow> error + jsobj" where
  "decode_response response =
     (let rsp = js_split (CHR '','') response in
      if length rsp = 0 \<or> \<not> prefix ''ret='' (rsp ! 0) then Inl MalformedResponse
      else
        let ret_msg = drop 4 (rsp ! 0) in
        if ret_msg = RET_MSG_PARAM_NG then Inl InvalidParameters
        else if ret_msg = RET_MSG_ADV_NG then Inl AdvancedError
        else if ret_msg \<noteq> RET_MSG_OK then Inl (UnknownStatus ret_msg)
        else
          (case decode_parts (drop 1 rsp) of
             None \<Rightarrow> Inl URIError
           | Some xs \<Rightarrow> Inr (collect_pairs xs)))"

section \<open>Number primitives of the platform\<close>

definition is_digit :: "char \<Rightarrow> bool" where
  "is_digit c = (48 \<le> (of_char c :: nat) \<and> (of_char c :: nat) \<le> 57)"

definition digit_value :: "char \<Rightarrow> nat" where
  "digit_value c = of_char c - 48"

definition digits_value :: "string \<Rightarrow> nat" where
  "digits_value ds = foldl (\<lambda>a c. 10 * a + digit_value c) 0 ds"

text \<open>
  The length in bytes of the white space or line terminator at the head of a string
  (\<^verbatim>\<open>StrWhiteSpaceChar\<close>), 0 when there is none: TAB, LF, VT, FF, CR, SP; U+00A0;
  U+1680, U+2000 to U+200A, U+2028, U+2029, U+202F, U+205F, U+3000, U+FEFF.
\<close>

definition white_space_length :: "string \<Rightarrow> nat" where
  "white_space_length s =
     (let bs = (map of_char (take 3 s) :: nat list) in
      if take 1 bs \<in> set [[9], [10], [11], [12], [13], [32]] then 1
      else if take 2 bs = [194, 160] then 2
      else if bs = [225, 154, 128]
           \<or> (length bs = 3 \<and> take 2 bs = [226, 128]
               \<and> (128 \<le> bs ! 2 \<and> bs ! 2 \<le> 138 \<or> bs ! 2 \<in> set [168, 169, 175]))
           \<or> bs = [226, 129, 159] \<or> bs = [227, 128, 128] \<or> bs = [239, 187, 191]
      then 3
      else 0)"

function skip_white_space :: "string \<Rightarrow> string" where
  "skip_white_space s =
     (if white_space_length s = 0 then s
      else skip_white_space (drop (white_space_length s) s))"
  by pat_completeness auto
termination
proof (relation "measure length")
  show "wf (measure length)" by simp
  show "(drop (white_space_length s) s, s) \<in> measure length"
    if "white_space_length s \<noteq> 0" for s :: string
  proof -
    from that have "s \<noteq> []"
      by (auto simp: white_space_length_def)
    with that show ?thesis by simp
  qed
qed

declare skip_white_space.simps [simp del]

text \<open>The optional sign of \<^verbatim>\<open>parseInt\<close> and \<^verbatim>\<open>parseFloat\<close>.\<close>

definition is_negative :: "string \<Rightarrow> bool" where
  "is_negative s = (s \<noteq> [] \<and> hd s = CHR ''-'')"

definition drop_sign :: "string \<Rightarrow> string" where
  "drop_sign s = (if s \<noteq> [] \<and> (hd s = CHR ''+'' \<or> hd s = CHR ''-'') then tl s else s)"

definition signed :: "bool \<Rightarrow> rat \<Rightarrow> rat" where
  "signed negative v = (if negative then - v else v)"

text \<open>
  \<^verbatim>\<open>parseInt(string, 10)\<close>: leading white space, an optional sign, then the longest run
  of decimal digits; \<^verbatim>\<open>NaN\<close> when that run is empty.
\<close>

definition parseInt :: "string \<Rightarrow> jsnum" where
  "parseInt inputString =
     (let S = skip_white_space inputString;
          Z = takeWhile is_digit (drop_sign S)
      in if Z = [] then NaN else Fin (signed (is_negative S) (of_nat (digits_value Z))))"

text \<open>
  The exponent part of a decimal literal, \<^verbatim>\<open>e\<close> or \<^verbatim>\<open>E\<close>, an optional sign and at least
  one digit; 0 when the text does not start with a complete exponent part.
\<close>

definition exponent_part :: "string \<Rightarrow> int" where
  "exponent_part s =
     (if s \<noteq> [] \<and> (hd s = CHR ''e'' \<or> hd s = CHR ''E'') then
        (let D = takeWhile is_digit (drop_sign (tl s)) in
         if D = [] then 0
         else if is_negative (tl s) then - int (digits_value D) else int (digits_value D))
      else 0)"

definition scale10 :: "rat \<Rightarrow> int \<Rightarrow> rat" where
  "scale10 v e = (if 0 \<le> e then v * 10 ^ nat e else v / 10 ^ nat (- e))"

text \<open>
  \<^verbatim>\<open>parseFloat(string)\<close>: leading white space, then the longest prefix that is a
  \<^verbatim>\<open>StrDecimalLiteral\<close>: an optional sign and either \<^verbatim>\<open>Infinity\<close> or digits with an
  optional fraction and an optional exponent part (at least one digit before or after
  the point); \<^verbatim>\<open>NaN\<close> when there is no such prefix.
\<close>

definition parseFloat :: "string \<Rightarrow> jsnum" where
  "parseFloat inputString =
     (let S = skip_white_space inputString;
          U = drop_sign S
      in if prefix ''Infinity'' U then (if is_negative S then NegInfinity else PosInfinity)
         else
           let I = takeWhile is_digit U;
               r = dropWhile is_digit U;
               point = (r \<noteq> [] \<and> hd r = CHR ''.'');
               F = (if point then takeWhile is_digit (tl r) else []);
               r' = (if point then dropWhile is_digit (tl r) else r)
           in if I = [] \<and> F = [] then NaN
              else Fin (signed (is_negative S)
                     (scale10 (of_nat (digits_value (I @ F))) (exponent_part r' - int (length F)))))"

text \<open>The decimal digits of a natural number, most significant first.\<close>

fun digits_of :: "nat \<Rightarrow> string" where
  "digits_of n =
     (if n < 10 then [''0123456789'' ! n]
      else digits_of (n div 10) @ [''0123456789'' ! (n mod 10)])"

declare digits_of.simps [simp del]

text \<open>
  The least \<open>f\<close> with \<open>q * 10 ^ f\<close> an integer, and that integer. The search is bounded:
  a double has at most 1074 decimal places.
\<close>

fun decimal_scale :: "nat \<Rightarrow> rat \<Rightarrow> nat \<Rightarrow> int \<times> nat" where
  "decimal_scale 0 q f = (\<lfloor>q\<rfloor>, f)"
| "decimal_scale (Suc fuel) q f =
     (if of_int \<lfloor>q\<rfloor> = q then (\<lfloor>q\<rfloor>, f) else decimal_scale fuel (q * 10) (Suc f))"

text \<open>
  \<^verbatim>\<open>Number::toString\<close> in radix 10 for a positive finite number: with \<open>s\<close> the \<open>k\<close>
  significant digits and \<open>n\<close> the position of the decimal point, the plain notations
  for \<open>-6 < n \<le> 21\<close> and the exponential notation otherwise.
\<close>

definition positive_to_string :: "rat \<Rightarrow> string" where
  "positive_to_string q =
     (let (m, f) = decimal_scale 1100 q 0;
          ds = digits_of (nat m);
          s = rev (dropWhile (\<lambda>c. c = CHR ''0'') (rev ds));
          k = int (length s);
          n = int (length ds) - int f;
          e = n - 1;
          es = (if e < 0 then ''-'' else ''+'') @ digits_of (nat \<bar>e\<bar>)
      in if k \<le> n \<and> n \<le> 21 then s @ replicate (nat (n - k)) (CHR ''0'')
         else if 0 < n \<and> n \<le> 21 then take (nat n) s @ ''.'' @ drop (nat n) s
         else if - 6 < n \<and> n \<le> 0 then ''0.'' @ replicate (nat (- n)) (CHR ''0'') @ s
         else if k = 1 then s @ ''e'' @ es
         else take 1 s @ ''.'' @ drop 1 s @ ''e'' @ es)"

definition number_to_string :: "jsnum \<Rightarrow> string" where
  "number_to_string x =
     (case x of
        NaN \<Rightarrow> ''NaN''
      | PosInfinity \<Rightarrow> ''Infinity''
      | NegInfinity \<Rightarrow> ''-Infinity''
      | Fin q \<Rightarrow>
          if q = 0 then ''0''
          else if q < 0 then ''-'' @ positive_to_string (- q)
          else positive_to_string q)"

text \<open>\<^verbatim>\<open>'' + x\<close>, the \<^verbatim>\<open>ToString\<close> of a primitive value.\<close>

fun ToString :: "jsval \<Rightarrow> string" where
  "ToString JUndefined = ''undefined''"
| "ToString JNull = ''null''"
| "ToString (JBool b) = (if b then ''true'' else ''false'')"
| "ToString (JNum n) = number_to_string n"
| "ToString (JStr s) = s"

section \<open>The coercion tables\<close>

text \<open>
  \<^verbatim>\<open>PARSER\<close> and \<^verbatim>\<open>FORMATTER\<close>. \<^verbatim>\<open>x == null\<close> holds for \<^verbatim>\<open>null\<close> and \<^verbatim>\<open>undefined\<close>;
  \<^verbatim>\<open>===\<close> compares without conversion; \<^verbatim>\<open>'' + x\<close> is the \<^verbatim>\<open>ToString\<close> of \<open>x\<close>.
\<close>

definition PARSER_int :: "jsval \<Rightarrow> jsval" where
  "PARSER_int x =
     (if x = JNull \<or> x = JUndefined then JNum (Fin 0) else JNum (parseInt (ToString x)))"

definition PARSER_temperature :: "jsval \<Rightarrow> jsval" where
  "PARSER_temperature x =
     (if x = JNull \<or> x = JUndefined \<or> x = JStr ''-'' \<or> x = JStr ''--'' then JNull
      else JNum (parseFloat (ToString x)))"

definition PARSER_bool :: "jsval \<Rightarrow> jsval" where
  "PARSER_bool x = JBool (x = JStr ''true'' \<or> x = JNum (Fin 1) \<or> x = JBool True)"

definition PARSER_default :: "jsval \<Rightarrow> jsval" where
  "PARSER_default x = x"

definition FORMATTER_int :: "jsval \<Rightarrow> jsval" where
  "FORMATTER_int x = JStr (ToString (PARSER_int x))"

definition FORMATTER_temperature :: "jsval \<Rightarrow> jsval" where
  "FORMATTER_temperature x = JStr (ToString (PARSER_temperature x))"

definition FORMATTER_bool :: "jsval \<Rightarrow> jsval" where
  "FORMATTER_bool x = (if PARSER_bool x = JBool True then JStr ''1'' else JStr ''0'')"

definition FORMATTER_default :: "jsval \<Rightarrow> jsval" where
  "FORMATTER_default x = x"

text \<open>
  \<^verbatim>\<open>type Format = 'int' | 'temperature' | 'bool' | 'default'\<close>. Each of the four names
  has an entry in both tables, so \<^verbatim>\<open>PARSER[format] || PARSER.default\<close> is the entry.
\<close>

datatype Format = F_int | F_temperature | F_bool | F_default

fun PARSER :: "Format \<Rightarrow> jsval \<Rightarrow> jsval" where
  "PARSER F_int = PARSER_int"
| "PARSER F_temperature = PARSER_temperature"
| "PARSER F_bool = PARSER_bool"
| "PARSER F_default = PARSER_default"

fun FORMATTER :: "Format \<Rightarrow> jsval \<Rightarrow> jsval" where
  "FORMATTER F_int = FORMATTER_int"
| "FORMATTER F_temperature = FORMATTER_temperature"
| "FORMATTER F_bool = FORMATTER_bool"
| "FORMATTER F_default = FORMATTER_default"

section \<open>The field mapper\<close>

text \<open>
  A schema (\<^verbatim>\<open>formats\<close>) lists its kinds in the order of \<^verbatim>\<open>Object.keys\<close>, each with its
  field names. The source updates the record in place and returns it; here the updated
  record is the result.
\<close>

type_synonym formats = "(Format \<times> string list) list"

definition parse_data :: "jsobj \<Rightarrow> formats \<Rightarrow> jsobj" where
  "parse_data x formats =
     foldl (\<lambda>x (format, props).
              foldl (\<lambda>x prop. x(prop \<mapsto> PARSER format (get_prop x prop))) x props)
       x formats"

text \<open>
  In \<^verbatim>\<open>format_data\<close> the \<^verbatim>\<open>filter\<close> builds the list of the fields that are not
  \<^verbatim>\<open>null\<close> or \<^verbatim>\<open>undefined\<close> before the \<^verbatim>\<open>forEach\<close> starts to write.
\<close>

definition format_data :: "jsobj \<Rightarrow> formats \<Rightarrow> jsobj" where
  "format_data x formats =
     foldl (\<lambda>x (format, props).
              foldl (\<lambda>x prop. x(prop \<mapsto> FORMATTER format (get_prop x prop))) x
                (filter (\<lambda>prop. get_prop x prop \<noteq> JNull \<and> get_prop x prop \<noteq> JUndefined) props))
       x formats"

definition ctrl_formats :: formats where
  "ctrl_formats =
     [(F_int, [''alert'', ''mode'', ''b_mode'']),
      (F_temperature, [''shum'', ''stemp'', ''b_shum'']),
      (F_bool, [''pow''])]"

definition parse_sensor_info :: "jsobj \<Rightarrow> jsobj" where
  "parse_sensor_info x =
     parse_data x [(F_int, [''err'']), (F_temperature, [''hhum'', ''htemp'', ''otemp''])]"

definition parse_control_info :: "jsobj \<Rightarrow> jsobj" where
  "parse_control_info x = parse_data x ctrl_formats"

definition format_control_info :: "jsobj \<Rightarrow> jsobj" where
  "format_control_info x = format_data x ctrl_formats"

section \<open>Requests\<close>

text \<open>
  The transport (\<^verbatim>\<open>request.get\<close>) is a collaborator of the connector. It is a function
  from the requests performed so far and the request at hand to the \<^verbatim>\<open>err\<close> (\<open>Inl\<close>) or
  the body (\<open>Inr\<close>) that the callback receives. Every operation takes the list of the
  requests performed so far and returns it extended, next to its result: the list is
  what a recording transport would have seen.
\<close>

record request =
  uri :: string
  headers :: "jsobj option"
  qs :: "jsobj option"

type_synonym transport = "request list \<Rightarrow> request \<Rightarrow> string + string"

text \<open>
  \<^verbatim>\<open>send_request\<close>. The host is \<open>None\<close> when it is \<^verbatim>\<open>null\<close> or \<^verbatim>\<open>undefined\<close>. The two
  checks at the top throw before anything is sent.
\<close>

definition send_request ::
  "string option \<Rightarrow> transport \<Rightarrow> request list \<Rightarrow> string \<Rightarrow> string \<Rightarrow> jsobj option
     \<Rightarrow> jsobj option \<Rightarrow> (error + jsobj) \<times> request list" where
  "send_request host tr sent method url params hdrs =
     (case host of
        None \<Rightarrow> (Inl HostRequired, sent)
      | Some h \<Rightarrow>
          if h = [] then (Inl HostRequired, sent)
          else if method \<noteq> ''GET'' then (Inl (MethodNotImplemented method), sent)
          else
            let req = \<lparr>uri = ''http://'' @ h @ url, headers = hdrs, qs = params\<rparr> in
            (case tr sent req of
               Inl err \<Rightarrow> (Inl (TransportError err), sent @ [req])
             | Inr response \<Rightarrow> (decode_response response, sent @ [req])))"

definition get_raw_control_info ::
  "string option \<Rightarrow> transport \<Rightarrow> request list \<Rightarrow> (error + jsobj) \<times> request list" where
  "get_raw_control_info host tr sent =
     send_request host tr sent ''GET'' ''/aircon/get_control_info'' None None"

definition get_control_info ::
  "string option \<Rightarrow> transport \<Rightarrow> request list \<Rightarrow> (error + jsobj) \<times> request list" where
  "get_control_info host tr sent =
     (case get_raw_control_info host tr sent of
        (Inl e, sent') \<Rightarrow> (Inl e, sent')
      | (Inr x, sent') \<Rightarrow> (Inr (parse_control_info x), sent'))"

definition get_sensor_info ::
  "string option \<Rightarrow> transport \<Rightarrow> request list \<Rightarrow> (error + jsobj) \<times> request list" where
  "get_sensor_info host tr sent =
     (case send_request host tr sent ''GET'' ''/aircon/get_sensor_info'' None None of
        (Inl e, sent') \<Rightarrow> (Inl e, sent')
      | (Inr x, sent') \<Rightarrow> (Inr (parse_sensor_info x), sent'))"

text \<open>
  \<^verbatim>\<open>set_control_info\<close>: the first \<^verbatim>\<open>then\<close> builds \<^verbatim>\<open>minimal_state\<close> from the six fields
  of the current state and \<^verbatim>\<open>Object.assign\<close> copies every property of the formatted
  \<^verbatim>\<open>params\<close> over it; the second \<^verbatim>\<open>then\<close> sends the result. Neither runs when the fetch
  of the current state fails.
\<close>

definition minimal_fields :: "string list" where
  "minimal_fields = [''pow'', ''mode'', ''stemp'', ''shum'', ''f_rate'', ''f_dir'']"

definition set_control_info ::
  "string option \<Rightarrow> transport \<Rightarrow> request list \<Rightarrow> jsobj \<Rightarrow> (error + jsobj) \<times> request list" where
  "set_control_info host tr sent params =
     (let params = format_control_info params in
      case get_raw_control_info host tr sent of
        (Inl e, sent') \<Rightarrow> (Inl e, sent')
      | (Inr current, sent') \<Rightarrow>
          let minimal_state =
                foldl (\<lambda>minimal_state x. minimal_state(x \<mapsto> get_prop current x))
                  Map.empty minimal_fields;
              params = minimal_state ++ params
          in send_request host tr sent' ''GET'' ''/aircon/set_control_info'' (Some params) None)"

section \<open>Vocabulary of the statements\<close>

text \<open>
  A decimal integer in canonical form: \<^verbatim>\<open>0\<close>, or an optional minus sign and up to 15
  digits of which the first is not \<^verbatim>\<open>0\<close>. Doubles hold these integers exactly.
\<close>

definition plain_digits :: "string \<Rightarrow> bool" where
  "plain_digits ds =
     (ds \<noteq> [] \<and> list_all is_digit ds \<and> hd ds \<noteq> CHR ''0'' \<and> length ds \<le> 15)"

definition canonical_integer :: "string \<Rightarrow> bool" where
  "canonical_integer s =
     (s = ''0'' \<or> plain_digits s \<or> (s \<noteq> [] \<and> hd s = CHR ''-'' \<and> plain_digits (tl s)))"

text \<open>
  The text before the first equals sign of a part, and the text after it. For a part
  with exactly one equals sign these are its two pieces.
\<close>

definition key_text :: "string \<Rightarrow> string" where
  "key_text part = takeWhile (\<lambda>c. c \<noteq> CHR ''='') part"

definition value_text :: "string \<Rightarrow> string" where
  "value_text part = tl (dropWhile (\<lambda>c. c \<noteq> CHR ''='') part)"

text \<open>An ASCII letter.\<close>

definition is_letter :: "char \<Rightarrow> bool" where
  "is_letter c =
     (65 \<le> (of_char c :: nat) \<and> (of_char c :: nat) \<le> 90
      \<or> 97 \<le> (of_char c :: nat) \<and> (of_char c :: nat) \<le> 122)"

text \<open>
  The numbers on which the model is exact and which print in plain notation: \<^verbatim>\<open>NaN\<close>,
  the infinities, zero, and the decimal numbers with at most 15 significant digits and
  a magnitude from \<open>10\<^sup>-\<^sup>6\<close> up to \<open>10\<^sup>1\<^sup>5\<close>, that is \<open>m / 10 ^ f\<close> with \<open>\<bar>m\<bar> < 10 ^ 15\<close>.
  A double reproduces every decimal of at most 15 significant digits.
\<close>

definition exact_number :: "jsnum \<Rightarrow> bool" where
  "exact_number n =
     (case n of
        Fin q \<Rightarrow>
          q = 0
          \<or> (1 / 10 ^ 6 \<le> \<bar>q\<bar>
              \<and> (\<exists>f \<in> set [0..<21].
                    of_int \<lfloor>q * 10 ^ f\<rfloor> = q * 10 ^ f \<and> \<bar>q * 10 ^ f\<bar> < 10 ^ 15))
      | _ \<Rightarrow> True)"

section \<open>Properties of the response decoder\<close>

lemma js_split_not_Nil: "js_split sep s \<noteq> []"
  by (induction s) (auto simp: Let_def)

lemma response_first_part: "js_split sep s ! 0 = hd (js_split sep s)"
  using js_split_not_Nil [of sep s] by (simp add: hd_conv_nth)

text \<open>
  The first part of a payload, \<^verbatim>\<open>rsp[0]\<close>, is the text before its first comma.
\<close>

lemma js_split_hd: "hd (js_split sep s) = takeWhile (\<lambda>c. c \<noteq> sep) s"
  by (induction s) (auto simp: Let_def)

text \<open>So the first part begins with \<^verbatim>\<open>ret=\<close> exactly when the payload does.\<close>

lemma first_part_prefix:
  "prefix ''ret='' (hd (js_split (CHR '','') payload)) \<longleftrightarrow> prefix ''ret='' payload"
proof -
  have "prefix ''ret='' (takeWhile (\<lambda>c. c \<noteq> CHR '','') s) \<longleftrightarrow> prefix ''ret='' s" for s
    by (cases s; cases "tl s"; cases "tl (tl s)"; cases "tl (tl (tl s))") auto
  then show ?thesis
    by (simp add: js_split_hd)
qed

text \<open>
  Claim C8. A payload whose first comma-separated part does not begin with \<^verbatim>\<open>ret=\<close>
  (the empty payload is one) is rejected as \<open>MalformedResponse\<close>, whatever follows.
\<close>

theorem decode_without_ret_prefix:
  assumes "\<not> prefix ''ret='' (hd (js_split (CHR '','') payload))"
  shows "decode_response payload = Inl MalformedResponse"
  using assms by (simp add: decode_response_def Let_def response_first_part)

theorem decode_without_ret_prefix_witness:
  "\<not> prefix ''ret='' (hd (js_split (CHR '','') ''''))
   \<and> decode_response '''' = Inl MalformedResponse
   \<and> \<not> prefix ''ret='' (hd (js_split (CHR '','') ''re,ret=OK,pow=1''))
   \<and> decode_response ''re,ret=OK,pow=1'' = Inl MalformedResponse"
proof -
  have h1: "\<not> prefix ''ret='' (hd (js_split (CHR '','') ''''))"
    by simp
  have h2: "\<not> prefix ''ret='' (hd (js_split (CHR '','') ''re,ret=OK,pow=1''))"
    by simp
  show ?thesis
    using h1 h2 decode_without_ret_prefix [OF h1] decode_without_ret_prefix [OF h2]
    by simp
qed

text \<open>
  Claim C3. When the first part begins with \<^verbatim>\<open>ret=\<close>, the status token is what follows
  these four characters. The decoder fails with \<open>InvalidParameters\<close> exactly for the
  token \<^verbatim>\<open>PARAM NG\<close>, with \<open>AdvancedError\<close> exactly for \<^verbatim>\<open>ADV_NG\<close>, with \<open>UnknownStatus\<close>
  for every other token but \<^verbatim>\<open>OK\<close>, and it returns a record only for \<^verbatim>\<open>OK\<close>.
\<close>

theorem decode_status:
  assumes "prefix ''ret='' (hd (js_split (CHR '','') payload))"
  shows "(let token = drop 4 (hd (js_split (CHR '','') payload)) in
          (decode_response payload = Inl InvalidParameters \<longleftrightarrow> token = ''PARAM NG'')
        \<and> (decode_response payload = Inl AdvancedError \<longleftrightarrow> token = ''ADV_NG'')
        \<and> (token \<noteq> ''PARAM NG'' \<and> token \<noteq> ''ADV_NG'' \<and> token \<noteq> ''OK''
             \<longrightarrow> decode_response payload = Inl (UnknownStatus token))
        \<and> ((\<exists>r. decode_response payload = Inr r) \<longrightarrow> token = ''OK''))"
  using assms
  by (auto simp: decode_response_def Let_def response_first_part RET_MSG_OK_def
      RET_MSG_PARAM_NG_def RET_MSG_ADV_NG_def js_split_not_Nil split: option.splits)

theorem decode_status_witness:
  "prefix ''ret='' (hd (js_split (CHR '','') ''ret=BUSY,pow=1''))
   \<and> decode_response ''ret=BUSY,pow=1'' = Inl (UnknownStatus ''BUSY'')
   \<and> prefix ''ret='' (hd (js_split (CHR '','') ''ret=PARAM NG''))
   \<and> decode_response ''ret=PARAM NG'' = Inl InvalidParameters
   \<and> prefix ''ret='' (hd (js_split (CHR '','') ''ret=ADV_NG,adv=''))
   \<and> decode_response ''ret=ADV_NG,adv='' = Inl AdvancedError"
proof -
  have h1: "prefix ''ret='' (hd (js_split (CHR '','') ''ret=BUSY,pow=1''))"
    by simp
  have h2: "prefix ''ret='' (hd (js_split (CHR '','') ''ret=PARAM NG''))"
    by simp
  have h3: "prefix ''ret='' (hd (js_split (CHR '','') ''ret=ADV_NG,adv=''))"
    by simp
  have "decode_response ''ret=BUSY,pow=1'' = Inl (UnknownStatus ''BUSY'')"
    using decode_status [OF h1] by (simp add: Let_def)
  moreover have "decode_response ''ret=PARAM NG'' = Inl InvalidParameters"
    using decode_status [OF h2] by (simp add: Let_def)
  moreover have "decode_response ''ret=ADV_NG,adv='' = Inl AdvancedError"
    using decode_status [OF h3] by (simp add: Let_def)
  ultimately show ?thesis
    using h1 h2 h3 by simp
qed

lemma js_split_no_sep: "sep \<notin> set p \<Longrightarrow> js_split sep p = [p]"
  by (induction p) (auto simp: Let_def)

lemma js_split_snoc:
  "sep \<notin> set p \<Longrightarrow> js_split sep (s @ sep # p) = js_split sep s @ [p]"
proof (induction s)
  case Nil
  then show ?case by (simp add: js_split_no_sep)
next
  case (Cons c s)
  then show ?case
    using js_split_not_Nil [of sep s] by (cases "js_split sep s") (auto simp: Let_def)
qed

lemma js_split_length: "length (js_split sep s) = Suc (count_list s sep)"
  by (induction s) (auto simp: Let_def js_split_not_Nil)

lemma js_split_two:
  "count_list s sep = 1 \<Longrightarrow>
   js_split sep s = [takeWhile (\<lambda>c. c \<noteq> sep) s, tl (dropWhile (\<lambda>c. c \<noteq> sep) s)]"
proof (induction s)
  case Nil
  then show ?case by simp
next
  case (Cons c s)
  show ?case
  proof (cases "c = sep")
    case True
    with Cons.prems have "count_list s sep = 0" by simp
    then have "sep \<notin> set s" by (simp add: count_list_0_iff)
    with True show ?thesis by (simp add: js_split_no_sep)
  next
    case False
    with Cons show ?thesis by (simp add: Let_def)
  qed
qed

lemma those_snoc:
  "those (xs @ [x]) =
     (case those xs of None \<Rightarrow> None
      | Some ys \<Rightarrow> (case x of None \<Rightarrow> None | Some y \<Rightarrow> Some (ys @ [y])))"
  by (induction xs) (auto split: option.splits)

lemma those_None_iff: "those xs = None \<longleftrightarrow> None \<in> set xs"
  by (induction xs) (auto split: option.splits)

lemma those_Some_nth:
  "those xs = Some ys \<Longrightarrow> length ys = length xs \<and> (\<forall>i < length xs. xs ! i = Some (ys ! i))"
proof (induction xs arbitrary: ys)
  case Nil
  then show ?case by simp
next
  case (Cons x xs)
  then show ?case
    by (auto split: option.splits simp: nth_Cons split: nat.splits)
qed

lemma ret_prefix_token: "prefix ''ret='' s \<Longrightarrow> s = ''ret='' @ drop 4 s"
  by (auto simp: prefix_def)

lemma decode_response_ok:
  assumes "hd (js_split (CHR '','') payload) = ''ret=OK''"
  shows "decode_response payload =
     (case decode_parts (tl (js_split (CHR '','') payload)) of
        None \<Rightarrow> Inl URIError
      | Some xs \<Rightarrow> Inr (collect_pairs xs))"
proof -
  have "drop 1 (js_split (CHR '','') payload) = tl (js_split (CHR '','') payload)"
    by (simp add: drop_Suc)
  with assms show ?thesis
    by (simp add: decode_response_def Let_def response_first_part RET_MSG_OK_def
        RET_MSG_PARAM_NG_def RET_MSG_ADV_NG_def js_split_not_Nil del: One_nat_def)
qed

lemma collect_pairs_snoc:
  "collect_pairs (xs @ [x]) =
     (if length x = 2 then store_text (collect_pairs xs) (x ! 0) (x ! 1) else collect_pairs xs)"
  by (simp add: collect_pairs_def)

lemma decode_part_None_iff:
  "decode_part part = None \<longleftrightarrow>
     (\<exists>x \<in> set (js_split (CHR ''='') part). decodeURIComponent x = None)"
  by (simp add: decode_part_def those_None_iff image_iff) metis

lemma decode_parts_None_iff:
  "decode_parts parts = None \<longleftrightarrow>
     (\<exists>part \<in> set parts. \<exists>x \<in> set (js_split (CHR ''='') part). decodeURIComponent x = None)"
proof -
  have "decode_parts parts = None \<longleftrightarrow> (\<exists>part \<in> set parts. decode_part part = None)"
    by (simp add: decode_parts_def those_None_iff image_iff) metis
  then show ?thesis
    by (simp add: decode_part_None_iff)
qed

text \<open>
  The pieces of a part with exactly one equals sign are its key text and its value
  text, and only such a part has exactly two pieces.
\<close>

lemma decode_part_pieces:
  assumes "decode_part part = Some x"
  shows "length x = 2 \<longleftrightarrow> count_list part (CHR ''='') = 1"
    and "count_list part (CHR ''='') = 1 \<Longrightarrow>
      decodeURIComponent (key_text part) = Some (x ! 0)
      \<and> decodeURIComponent (value_text part) = Some (x ! 1)"
proof -
  have len: "length x = Suc (count_list part (CHR ''=''))"
    and nth: "\<forall>i < length x. decodeURIComponent (js_split (CHR ''='') part ! i) = Some (x ! i)"
    using those_Some_nth [OF assms [unfolded decode_part_def]] by (simp_all add: js_split_length)
  from len show "length x = 2 \<longleftrightarrow> count_list part (CHR ''='') = 1"
    by auto
  show "decodeURIComponent (key_text part) = Some (x ! 0)
      \<and> decodeURIComponent (value_text part) = Some (x ! 1)"
    if one: "count_list part (CHR ''='') = 1"
    using len nth js_split_two [OF one] one by (auto simp: key_text_def value_text_def)
qed

text \<open>
  The record built from the decoded parts, key by key: the value comes from the last
  part with exactly one equals sign whose decoded key is the key.
\<close>

lemma collect_pairs_decoded:
  assumes "decode_parts parts = Some xs"
  shows "collect_pairs xs =
     (\<lambda>k. if k = ''__proto__'' then None
          else (case filter (\<lambda>part. count_list part (CHR ''='') = 1
                                  \<and> decodeURIComponent (key_text part) = Some k) (rev parts) of
                  [] \<Rightarrow> None
                | part # _ \<Rightarrow> map_option JStr (decodeURIComponent (value_text part))))"
  using assms
proof (induction parts arbitrary: xs rule: rev_induct)
  case Nil
  then show ?case
    by (auto simp: decode_parts_def collect_pairs_def)
next
  case (snoc part parts)
  from snoc.prems obtain ys x where ys: "decode_parts parts = Some ys"
    and x: "decode_part part = Some x" and xs: "xs = ys @ [x]"
    by (auto simp: decode_parts_def those_snoc split: option.splits)
  note ih = snoc.IH [OF ys]
  show ?case
  proof (cases "count_list part (CHR ''='') = 1")
    case True
    with decode_part_pieces [OF x] have "length x = 2"
      and "decodeURIComponent (key_text part) = Some (x ! 0)"
      and "decodeURIComponent (value_text part) = Some (x ! 1)"
      by simp_all
    with True show ?thesis
      unfolding xs collect_pairs_snoc ih
      by (auto simp: store_text_def fun_eq_iff)
  next
    case False
    with decode_part_pieces(1) [OF x] have "length x \<noteq> 2" by simp
    with False show ?thesis
      unfolding xs collect_pairs_snoc ih by (auto simp: fun_eq_iff)
  qed
qed

lemma ok_payload_shape:
  "(\<exists>parts. js_split (CHR '','') payload = ''ret=OK'' # parts)
   \<longleftrightarrow> (\<exists>r. decode_response payload = Inr r) \<or> decode_response payload = Inl URIError"
proof
  assume "\<exists>parts. js_split (CHR '','') payload = ''ret=OK'' # parts"
  then have "hd (js_split (CHR '','') payload) = ''ret=OK''"
    by auto
  from decode_response_ok [OF this]
  show "(\<exists>r. decode_response payload = Inr r) \<or> decode_response payload = Inl URIError"
    by (cases "decode_parts (tl (js_split (CHR '','') payload))") simp_all
next
  assume "(\<exists>r. decode_response payload = Inr r) \<or> decode_response payload = Inl URIError"
  then have "prefix ''ret='' (hd (js_split (CHR '','') payload))"
    and "drop 4 (hd (js_split (CHR '','') payload)) = ''OK''"
    by (auto simp: decode_response_def Let_def response_first_part RET_MSG_OK_def
        RET_MSG_PARAM_NG_def RET_MSG_ADV_NG_def js_split_not_Nil
        split: if_splits option.splits)
  then have "hd (js_split (CHR '','') payload) = ''ret=OK''"
    using ret_prefix_token by fastforce
  then have "js_split (CHR '','') payload = ''ret=OK'' # tl (js_split (CHR '','') payload)"
    using js_split_not_Nil [of "CHR '',''" payload] by (cases "js_split (CHR '','') payload") simp_all
  then show "\<exists>parts. js_split (CHR '','') payload = ''ret=OK'' # parts" ..
qed

text \<open>
  Claim C4, as the code has it. Take any payload whose first part is \<^verbatim>\<open>ret=OK\<close> (by
  \<open>ok_payload_shape\<close> these are the payloads that get past the status check) and let
  \<open>parts\<close> be its parts after the first. \<^verbatim>\<open>s.split('=')\<close> cuts a part at every equals
  sign, not at the first one only, and every piece of every part is percent-decoded
  before any part is filtered out. So a malformed escape in any piece of any part
  fails the whole response with a \<^verbatim>\<open>URIError\<close>. Otherwise the result is a record, and
  its value for a key is the decoded value text of the last part that has exactly one
  equals sign and that key as its decoded key text; parts with no equals sign or with
  more than one are dropped. The key \<^verbatim>\<open>__proto__\<close> alone is never stored.
\<close>

theorem decode_ok_payload:
  assumes "js_split (CHR '','') payload = ''ret=OK'' # parts"
  shows "decode_response payload =
     (if \<exists>part \<in> set parts. \<exists>x \<in> set (js_split (CHR ''='') part). decodeURIComponent x = None
      then Inl URIError
      else Inr (\<lambda>k. if k = ''__proto__'' then None
                    else (case filter (\<lambda>part. count_list part (CHR ''='') = 1
                                            \<and> decodeURIComponent (key_text part) = Some k)
                                 (rev parts) of
                            [] \<Rightarrow> None
                          | part # _ \<Rightarrow> map_option JStr (decodeURIComponent (value_text part)))))"
proof (cases "decode_parts parts")
  case None
  with assms decode_response_ok [of payload] show ?thesis
    by (simp add: decode_parts_None_iff [symmetric])
next
  case (Some xs)
  then have "\<not> (\<exists>part \<in> set parts. \<exists>x \<in> set (js_split (CHR ''='') part).
      decodeURIComponent x = None)"
    by (simp add: decode_parts_None_iff [symmetric])
  with assms decode_response_ok [of payload] Some collect_pairs_decoded [OF Some]
  show ?thesis
    by simp
qed


theorem decode_ok_payload_witness:
  "js_split (CHR '','') ''ret=OK,pow=1,a%20b=c%3Dd,a=b=c,pow=0''
     = [''ret=OK'', ''pow=1'', ''a%20b=c%3Dd'', ''a=b=c'', ''pow=0'']
   \<and> decode_response ''ret=OK,pow=1,a%20b=c%3Dd,a=b=c,pow=0''
     = Inr [''pow'' \<mapsto> JStr ''0'', ''a b'' \<mapsto> JStr ''c=d'']
   \<and> js_split (CHR '','') ''ret=OK,a=%,b=c'' = [''ret=OK'', ''a=%'', ''b=c'']
   \<and> decode_response ''ret=OK,a=%,b=c'' = Inl URIError
   \<and> js_split (CHR '','') ''ret=OK,__proto__=x'' = [''ret=OK'', ''__proto__=x'']
   \<and> decode_response ''ret=OK,__proto__=x'' = Inr Map.empty"
proof -
  have h1: "js_split (CHR '','') ''ret=OK,pow=1,a%20b=c%3Dd,a=b=c,pow=0''
     = ''ret=OK'' # [''pow=1'', ''a%20b=c%3Dd'', ''a=b=c'', ''pow=0'']"
    and h2: "js_split (CHR '','') ''ret=OK,a=%,b=c'' = ''ret=OK'' # [''a=%'', ''b=c'']"
    and h3: "js_split (CHR '','') ''ret=OK,__proto__=x'' = ''ret=OK'' # [''__proto__=x'']"
    by simp_all
  have d: "decodeURIComponent ''a%20b'' = Some ''a b''"
    "decodeURIComponent ''c%3Dd'' = Some ''c=d''"
    "decodeURIComponent ''a'' = Some ''a''" "decodeURIComponent ''b'' = Some ''b''"
    "decodeURIComponent ''c'' = Some ''c''" "decodeURIComponent ''%'' = None"
    "decodeURIComponent ''pow'' = Some ''pow''" "decodeURIComponent ''0'' = Some ''0''"
    "decodeURIComponent ''1'' = Some ''1''" "decodeURIComponent ''x'' = Some ''x''"
    "decodeURIComponent ''__proto__'' = Some ''__proto__''"
    by code_simp+
  have "decode_response ''ret=OK,pow=1,a%20b=c%3Dd,a=b=c,pow=0''
     = Inr [''pow'' \<mapsto> JStr ''0'', ''a b'' \<mapsto> JStr ''c=d'']"
    using decode_ok_payload [OF h1]
    by (auto simp: d key_text_def value_text_def fun_eq_iff simp del: decodeURIComponent.simps)
  moreover have "decode_response ''ret=OK,a=%,b=c'' = Inl URIError"
    using decode_ok_payload [OF h2]
    by (simp add: d del: decodeURIComponent.simps)
  moreover have "decode_response ''ret=OK,__proto__=x'' = Inr Map.empty"
    using decode_ok_payload [OF h3]
    by (auto simp: d key_text_def value_text_def fun_eq_iff simp del: decodeURIComponent.simps)
  ultimately show ?thesis
    using h1 h2 h3 by simp
qed

text \<open>
  Claim C4 as stated fails: the part \<^verbatim>\<open>a=b=c\<close> has three pieces and is dropped; it is
  not kept with the key \<^verbatim>\<open>a\<close> and the value \<^verbatim>\<open>b=c\<close>.
\<close>

theorem three_pieces_dropped:
  "js_split (CHR ''='') ''a=b=c'' = [''a'', ''b'', ''c'']
   \<and> decode_response ''ret=OK,a=b=c'' = Inr Map.empty"
  by (simp add: decode_response_def Let_def RET_MSG_OK_def RET_MSG_PARAM_NG_def
      RET_MSG_ADV_NG_def decode_parts_def decode_part_def collect_pairs_def)

text \<open>The payload \<^verbatim>\<open>ret=OK\<close> alone is the empty record.\<close>

lemma decode_ok_alone: "decode_response ''ret=OK'' = Inr Map.empty"
  by (simp add: decode_response_def Let_def RET_MSG_OK_def RET_MSG_PARAM_NG_def
      RET_MSG_ADV_NG_def decode_parts_def collect_pairs_def)

section \<open>Properties of the field mapper\<close>

lemma write_fields_other:
  "prop \<notin> set props \<Longrightarrow> foldl (\<lambda>x p. x(p \<mapsto> f x p)) x props prop = x prop"
  by (induction props arbitrary: x) auto


lemma parse_data_other:
  "prop \<notin> set (concat (map snd formats)) \<Longrightarrow> parse_data x formats prop = x prop"
  unfolding parse_data_def
  by (induction formats arbitrary: x) (auto simp: write_fields_other)

lemma format_data_other:
  "prop \<notin> set (concat (map snd formats)) \<Longrightarrow> format_data x formats prop = x prop"
  unfolding format_data_def
  by (induction formats arbitrary: x) (auto simp: write_fields_other)

text \<open>
  Claim C9. For every record and every schema, in the parse direction and in the format
  direction, a field whose name is listed under no kind of the schema is left as it
  was: present with the same value, or absent.
\<close>

theorem field_mapper_frame:
  assumes "prop \<notin> set (concat (map snd formats))"
  shows "parse_data x formats prop = x prop \<and> format_data x formats prop = x prop"
  using assms by (simp add: parse_data_other format_data_other)

theorem field_mapper_frame_witness:
  "''f_rate'' \<notin> set (concat (map snd ctrl_formats))
   \<and> parse_data [''f_rate'' \<mapsto> JStr ''A'', ''mode'' \<mapsto> JStr ''3''] ctrl_formats ''f_rate''
       = Some (JStr ''A'')
   \<and> format_data [''f_rate'' \<mapsto> JStr ''A'', ''mode'' \<mapsto> JNum (Fin 3)] ctrl_formats ''f_rate''
       = Some (JStr ''A'')
   \<and> parse_data [''f_rate'' \<mapsto> JStr ''A'', ''mode'' \<mapsto> JStr ''3''] ctrl_formats ''f_dir'' = None"
proof -
  have h1: "''f_rate'' \<notin> set (concat (map snd ctrl_formats))"
    and h2: "''f_dir'' \<notin> set (concat (map snd ctrl_formats))"
    by (simp_all add: ctrl_formats_def)
  show ?thesis
    using h1 field_mapper_frame [OF h1, of "[''f_rate'' \<mapsto> JStr ''A'', ''mode'' \<mapsto> JStr ''3'']"]
      field_mapper_frame [OF h1, of "[''f_rate'' \<mapsto> JStr ''A'', ''mode'' \<mapsto> JNum (Fin 3)]"]
      field_mapper_frame [OF h2, of "[''f_rate'' \<mapsto> JStr ''A'', ''mode'' \<mapsto> JStr ''3'']"]
    by simp
qed

section \<open>Properties of the write of the control state\<close>


lemma decode_never_HostRequired: "decode_response response \<noteq> Inl HostRequired"
  by (simp add: decode_response_def Let_def split: option.splits)



text \<open>
  Claim C2. When the fetch of the current state fails, \<^verbatim>\<open>set_control_info\<close> fails with
  the error of the fetch and performs no request beyond those of the fetch: the write
  is never sent. A fetch that fails for a missing host has sent nothing; every other
  failure of the fetch is a transport or a decoding failure, and then exactly one
  request has been performed, the GET of \<^verbatim>\<open>/aircon/get_control_info\<close>.
\<close>

theorem set_control_info_fetch_fails:
  assumes "get_raw_control_info host tr sent = (Inl e, sent')"
  shows "set_control_info host tr sent params = (Inl e, sent')
     \<and> (if e = HostRequired then sent' = sent
         else \<exists>h. host = Some h
           \<and> sent' = sent @ [\<lparr>uri = ''http://'' @ h @ ''/aircon/get_control_info'',
                               headers = None, qs = None\<rparr>]
           \<and> (case tr sent \<lparr>uri = ''http://'' @ h @ ''/aircon/get_control_info'',
                                headers = None, qs = None\<rparr> of
                 Inl err \<Rightarrow> e = TransportError err
               | Inr response \<Rightarrow> decode_response response = Inl e))"
proof -
  have "set_control_info host tr sent params = (Inl e, sent')"
    using assms by (simp add: set_control_info_def Let_def)
  moreover have "sent' = sent" if "e = HostRequired"
    using assms that decode_never_HostRequired
    by (auto simp: get_raw_control_info_def send_request_def Let_def
        split: option.splits if_splits sum.splits)
  moreover have "\<exists>h. host = Some h
          \<and> sent' = sent @ [\<lparr>uri = ''http://'' @ h @ ''/aircon/get_control_info'',
                              headers = None, qs = None\<rparr>]
          \<and> (case tr sent \<lparr>uri = ''http://'' @ h @ ''/aircon/get_control_info'',
                               headers = None, qs = None\<rparr> of
                Inl err \<Rightarrow> e = TransportError err
              | Inr response \<Rightarrow> decode_response response = Inl e)"
    if "e \<noteq> HostRequired"
    using assms that
    by (auto simp: get_raw_control_info_def send_request_def Let_def
        split: option.splits if_splits sum.splits)
  ultimately show ?thesis by simp
qed


theorem set_control_info_fetch_fails_witness:
  "get_raw_control_info (Some ''ac'') (\<lambda>sent req. Inl ''ECONNREFUSED'') []
     = (Inl (TransportError ''ECONNREFUSED''),
        [\<lparr>uri = ''http://ac/aircon/get_control_info'', headers = None, qs = None\<rparr>])
   \<and> TransportError ''ECONNREFUSED'' \<noteq> HostRequired
   \<and> set_control_info (Some ''ac'') (\<lambda>sent req. Inl ''ECONNREFUSED'') []
         [''stemp'' \<mapsto> JNum (Fin 26)]
     = (Inl (TransportError ''ECONNREFUSED''),
        [\<lparr>uri = ''http://ac/aircon/get_control_info'', headers = None, qs = None\<rparr>])
   \<and> get_raw_control_info (Some ''ac'') (\<lambda>sent req. Inr ''ret=PARAM NG'') []
     = (Inl InvalidParameters,
        [\<lparr>uri = ''http://ac/aircon/get_control_info'', headers = None, qs = None\<rparr>])
   \<and> InvalidParameters \<noteq> HostRequired
   \<and> set_control_info (Some ''ac'') (\<lambda>sent req. Inr ''ret=PARAM NG'') []
         [''stemp'' \<mapsto> JNum (Fin 26)]
     = (Inl InvalidParameters,
        [\<lparr>uri = ''http://ac/aircon/get_control_info'', headers = None, qs = None\<rparr>])"
proof -
  have f1: "get_raw_control_info (Some ''ac'')
      (\<lambda>(sent :: request list) (req :: request). Inl ''ECONNREFUSED'') []
     = (Inl (TransportError ''ECONNREFUSED''),
        [\<lparr>uri = ''http://ac/aircon/get_control_info'', headers = None, qs = None\<rparr>])"
    by (simp add: get_raw_control_info_def send_request_def)
  have f2: "get_raw_control_info (Some ''ac'')
      (\<lambda>(sent :: request list) (req :: request). Inr ''ret=PARAM NG'') []
     = (Inl InvalidParameters,
        [\<lparr>uri = ''http://ac/aircon/get_control_info'', headers = None, qs = None\<rparr>])"
    by (simp add: get_raw_control_info_def send_request_def decode_response_def Let_def
        RET_MSG_PARAM_NG_def)
  have e1: "TransportError ''ECONNREFUSED'' \<noteq> HostRequired"
    and e2: "InvalidParameters \<noteq> HostRequired"
    by simp_all
  show ?thesis
    using f1 f2 e1 e2 set_control_info_fetch_fails [OF f1, of "[''stemp'' \<mapsto> JNum (Fin 26)]"]
      set_control_info_fetch_fails [OF f2, of "[''stemp'' \<mapsto> JNum (Fin 26)]"]
    by simp
qed

section \<open>Properties of the coercion tables\<close>

lemma digit_cases:
  assumes "d < (10::nat)"
  obtains "d = 0" | "d = 1" | "d = 2" | "d = 3" | "d = 4" | "d = 5" | "d = 6" | "d = 7"
    | "d = 8" | "d = 9"
  using assms by atomize_elim arith

lemma digit_char_is_digit: "d < 10 \<Longrightarrow> is_digit (''0123456789'' ! d)"
  by (erule digit_cases) (simp_all add: is_digit_def)

lemma digit_char_value: "d < 10 \<Longrightarrow> digit_value (''0123456789'' ! d) = d"
  by (erule digit_cases) (simp_all add: digit_value_def)

lemma digit_value_less: "is_digit c \<Longrightarrow> digit_value c < 10"
  by (auto simp: is_digit_def digit_value_def)

lemma char_eqI: "(of_char c :: nat) = of_char c' \<Longrightarrow> c = c'"
  by simp

lemma digit_value_char: "is_digit c \<Longrightarrow> ''0123456789'' ! digit_value c = c"
proof -
  assume c: "is_digit c"
  then have "digit_value c < 10" by (rule digit_value_less)
  moreover have "of_char c = 48 + digit_value c"
    using c by (auto simp: is_digit_def digit_value_def)
  ultimately show ?thesis
    by (elim digit_cases) (simp_all, (rule char_eqI, simp)+)
qed


lemma digits_value_snoc: "digits_value (ds @ [c]) = 10 * digits_value ds + digit_value c"
  by (simp add: digits_value_def)

lemma digits_of_all_digits: "list_all is_digit (digits_of n)"
proof (induction n rule: digits_of.induct)
  case (1 n)
  show ?case
  proof (cases "n < 10")
    case True
    then show ?thesis
      by (subst digits_of.simps) (simp add: digit_char_is_digit)
  next
    case False
    with 1 show ?thesis
      by (subst digits_of.simps) (simp add: digit_char_is_digit)
  qed
qed

lemma digits_of_not_Nil: "digits_of n \<noteq> []"
  by (subst digits_of.simps) simp

lemma digits_value_digits_of: "digits_value (digits_of n) = n"
proof (induction n rule: digits_of.induct)
  case (1 n)
  show ?case
  proof (cases "n < 10")
    case True
    then show ?thesis
      by (subst digits_of.simps) (simp add: digits_value_def digit_char_value)
  next
    case False
    with 1 show ?thesis
      by (subst digits_of.simps) (simp add: digits_value_snoc digit_char_value)
  qed
qed

lemma digits_value_pos:
  "ds \<noteq> [] \<Longrightarrow> list_all is_digit ds \<Longrightarrow> hd ds \<noteq> CHR ''0'' \<Longrightarrow> 0 < digits_value ds"
proof (induction ds rule: rev_induct)
  case Nil
  then show ?case by simp
next
  case (snoc c ds)
  show ?case
  proof (cases "ds = []")
    case True
    with snoc.prems have "is_digit c" and "c \<noteq> CHR ''0''" by simp_all
    then have "digit_value c \<noteq> 0"
      using digit_value_char [of c] by (cases "digit_value c = 0") simp_all
    with True show ?thesis by (simp add: digits_value_def)
  next
    case False
    with snoc have "0 < digits_value ds" by simp
    then show ?thesis by (simp add: digits_value_snoc)
  qed
qed

lemma digits_of_digits_value:
  "ds \<noteq> [] \<Longrightarrow> list_all is_digit ds \<Longrightarrow> hd ds \<noteq> CHR ''0'' \<Longrightarrow>
   digits_of (digits_value ds) = ds"
proof (induction ds rule: rev_induct)
  case Nil
  then show ?case by simp
next
  case (snoc c ds)
  from snoc.prems have c: "is_digit c" by simp
  show ?case
  proof (cases "ds = []")
    case True
    with c show ?thesis
      by (subst digits_of.simps) (simp add: digits_value_def digit_value_less digit_value_char)
  next
    case False
    with snoc have ih: "digits_of (digits_value ds) = ds" and pos: "0 < digits_value ds"
      by (simp_all add: digits_value_pos)
    have "digits_of (10 * digits_value ds + digit_value c)
        = digits_of ((10 * digits_value ds + digit_value c) div 10)
          @ [''0123456789'' ! ((10 * digits_value ds + digit_value c) mod 10)]"
      using pos by (subst digits_of.simps) simp
    with c ih show ?thesis
      by (simp add: digits_value_snoc digit_value_less digit_value_char)
  qed
qed

lemma digits_value_bound: "list_all is_digit ds \<Longrightarrow> digits_value ds < 10 ^ length ds"
proof (induction ds rule: rev_induct)
  case Nil
  then show ?case by (simp add: digits_value_def)
next
  case (snoc c ds)
  then have "digits_value ds < 10 ^ length ds" and "digit_value c < 10"
    by (simp_all add: digit_value_less)
  then show ?case
    by (simp add: digits_value_snoc)
qed

lemma strip_trailing:
  "rev (dropWhile (\<lambda>x. x = c) (rev ds))
     @ replicate (length ds - length (rev (dropWhile (\<lambda>x. x = c) (rev ds)))) c = ds"
proof -
  let ?t = "takeWhile (\<lambda>x. x = c) (rev ds)" and ?d = "dropWhile (\<lambda>x. x = c) (rev ds)"
  have "rev ds = ?t @ ?d" by simp
  then have ds: "ds = rev ?d @ rev ?t"
    by (metis rev_append rev_rev_ident)
  have "\<forall>x \<in> set ?t. x = c"
    by (auto dest: set_takeWhileD)
  then have t: "?t = replicate (length ?t) c"
    by (simp add: replicate_length_same)
  have "length ds = length ?d + length ?t"
    by (subst ds) simp
  then have "length ds - length (rev ?d) = length ?t" by simp
  moreover have "rev ?t = replicate (length ?t) c"
    by (subst t) simp
  ultimately show ?thesis
    using ds by simp
qed

lemma decimal_scale_int: "decimal_scale fuel (of_int i) f = (i, f)"
  by (cases fuel) simp_all

lemma positive_to_string_nat:
  assumes "length (digits_of n) \<le> 21"
  shows "positive_to_string (of_nat n) = digits_of n"
proof -
  let ?ds = "digits_of n"
  let ?d = "dropWhile (\<lambda>c. c = CHR ''0'') (rev ?ds)"
  have scale: "decimal_scale 1100 (of_nat n) 0 = (int n, 0)"
    using decimal_scale_int [of 1100 "int n" 0] by simp
  have le: "length ?d \<le> length ?ds"
    using length_dropWhile_le [of "\<lambda>c. c = CHR ''0''" "rev ?ds"] by simp
  then have diff: "nat (int (length ?ds) - int (length ?d)) = length ?ds - length (rev ?d)"
    by simp
  have "positive_to_string (of_nat n)
      = rev ?d @ replicate (nat (int (length ?ds) - int (length ?d))) (CHR ''0'')"
    using assms le by (simp add: positive_to_string_def Let_def scale)
  also have "\<dots> = ?ds"
    unfolding diff by (rule strip_trailing)
  finally show ?thesis .
qed

lemma skip_white_space_visible:
  assumes "s = [] \<or> (32 < (of_char (hd s) :: nat) \<and> (of_char (hd s) :: nat) < 127)"
  shows "skip_white_space s = s"
proof -
  have "white_space_length s = 0"
  proof (cases s)
    case Nil
    then show ?thesis by (simp add: white_space_length_def)
  next
    case (Cons c cs)
    with assms have "32 < (of_char c :: nat)" and "(of_char c :: nat) < 127" by simp_all
    with Cons show ?thesis
      by (cases cs; cases "tl cs") (auto simp: white_space_length_def)
  qed
  then show ?thesis
    by (subst skip_white_space.simps) simp
qed

lemma is_digit_visible: "is_digit c \<Longrightarrow> 32 < (of_char c :: nat) \<and> (of_char c :: nat) < 127"
  by (simp add: is_digit_def)

lemma is_digit_not_sign:
  "is_digit c \<Longrightarrow> c \<noteq> CHR ''+'' \<and> c \<noteq> CHR ''-'' \<and> c \<noteq> CHR ''I'' \<and> c \<noteq> CHR ''.''"
  by (auto simp: is_digit_def)

lemma takeWhile_all_digits: "list_all is_digit ds \<Longrightarrow> takeWhile is_digit ds = ds"
  by (simp add: list_all_iff takeWhile_eq_all_conv)

lemma dropWhile_all_digits: "list_all is_digit ds \<Longrightarrow> dropWhile is_digit ds = []"
  by (simp add: list_all_iff)

lemma parseInt_digits:
  assumes "ds \<noteq> []" and "list_all is_digit ds"
  shows "parseInt ds = Fin (of_nat (digits_value ds))"
    and "parseInt (CHR ''-'' # ds) = Fin (- of_nat (digits_value ds))"
proof -
  from assms have hd: "is_digit (hd ds)" by (cases ds) simp_all
  have "skip_white_space ds = ds"
    using hd assms(1) by (intro skip_white_space_visible) (simp add: is_digit_visible)
  moreover have "drop_sign ds = ds" and "\<not> is_negative ds"
    using is_digit_not_sign [OF hd] by (simp_all add: drop_sign_def is_negative_def)
  ultimately show "parseInt ds = Fin (of_nat (digits_value ds))"
    using assms by (simp add: parseInt_def Let_def takeWhile_all_digits signed_def)
  have "skip_white_space (CHR ''-'' # ds) = CHR ''-'' # ds"
    by (rule skip_white_space_visible) simp
  then show "parseInt (CHR ''-'' # ds) = Fin (- of_nat (digits_value ds))"
    using assms
    by (simp add: parseInt_def Let_def takeWhile_all_digits signed_def drop_sign_def
        is_negative_def)
qed

lemma not_Infinity_prefix: "s \<noteq> [] \<Longrightarrow> hd s \<noteq> CHR ''I'' \<Longrightarrow> \<not> prefix ''Infinity'' s"
  by (cases s) simp_all

lemma parseFloat_digits:
  assumes "ds \<noteq> []" and "list_all is_digit ds"
  shows "parseFloat ds = Fin (of_nat (digits_value ds))"
    and "parseFloat (CHR ''-'' # ds) = Fin (- of_nat (digits_value ds))"
proof -
  from assms have hd: "is_digit (hd ds)" by (cases ds) simp_all
  have inf: "\<not> prefix ''Infinity'' ds"
    using assms(1) is_digit_not_sign [OF hd] by (simp add: not_Infinity_prefix)
  have ws: "skip_white_space ds = ds"
    using hd assms(1) by (intro skip_white_space_visible) (simp add: is_digit_visible)
  have sign: "drop_sign ds = ds" "\<not> is_negative ds"
    using is_digit_not_sign [OF hd] by (simp_all add: drop_sign_def is_negative_def)
  show "parseFloat ds = Fin (of_nat (digits_value ds))"
    using assms inf
    by (simp add: parseFloat_def Let_def ws sign takeWhile_all_digits dropWhile_all_digits
        signed_def exponent_part_def scale10_def)
  have "skip_white_space (CHR ''-'' # ds) = CHR ''-'' # ds"
    by (rule skip_white_space_visible) simp
  then show "parseFloat (CHR ''-'' # ds) = Fin (- of_nat (digits_value ds))"
    using assms inf
    by (simp add: parseFloat_def Let_def takeWhile_all_digits dropWhile_all_digits signed_def
        drop_sign_def is_negative_def exponent_part_def scale10_def)
qed

lemma digits_of_length: "0 < k \<Longrightarrow> n < 10 ^ k \<Longrightarrow> length (digits_of n) \<le> k"
proof (induction n arbitrary: k rule: digits_of.induct)
  case (1 n)
  show ?case
  proof (cases "n < 10")
    case True
    with "1.prems" show ?thesis
      by (subst digits_of.simps) simp
  next
    case False
    with "1.prems" obtain j where k: "k = Suc j"
      by (cases k) simp_all
    with False "1.prems" have "0 < j"
      by (cases j) simp_all
    moreover from k "1.prems" have "n div 10 < 10 ^ j"
      by (simp add: less_mult_imp_div_less mult.commute)
    ultimately have "length (digits_of (n div 10)) \<le> j"
      using "1.IH" False by simp
    with False k show ?thesis
      by (subst digits_of.simps) simp
  qed
qed

lemma number_to_string_nat:
  assumes "0 < n" and "n < 10 ^ 15"
  shows "number_to_string (Fin (of_nat n)) = digits_of n"
    and "number_to_string (Fin (- of_nat n)) = CHR ''-'' # digits_of n"
proof -
  have "length (digits_of n) \<le> 15"
    using assms(2) by (intro digits_of_length) simp_all
  then have "positive_to_string (of_nat n) = digits_of n"
    by (intro positive_to_string_nat) simp
  with assms(1) show "number_to_string (Fin (of_nat n)) = digits_of n"
    and "number_to_string (Fin (- of_nat n)) = CHR ''-'' # digits_of n"
    by (simp_all add: number_to_string_def)
qed

lemma plain_digits_value:
  assumes "plain_digits ds"
  shows "0 < digits_value ds" and "digits_value ds < 10 ^ 15"
    and "digits_of (digits_value ds) = ds"
proof -
  from assms show "0 < digits_value ds" and "digits_of (digits_value ds) = ds"
    by (simp_all add: plain_digits_def digits_value_pos digits_of_digits_value)
  from assms have "digits_value ds < 10 ^ length ds" and "length ds \<le> 15"
    by (simp_all add: plain_digits_def digits_value_bound)
  moreover have "(10::nat) ^ length ds \<le> 10 ^ 15"
    using \<open>length ds \<le> 15\<close> by (intro power_increasing) simp_all
  ultimately show "digits_value ds < 10 ^ 15" by linarith
qed

lemma exact_number_int:
  assumes "\<bar>i\<bar> < 10 ^ 15"
  shows "exact_number (Fin (of_int i))"
proof (cases "i = 0")
  case True
  then show ?thesis by (simp add: exact_number_def)
next
  case False
  then have "1 \<le> \<bar>i\<bar>" by simp
  then have "(1::rat) \<le> \<bar>of_int i\<bar>"
    by (metis of_int_1 of_int_abs of_int_le_iff)
  then have low: "(1::rat) / 10 ^ 6 \<le> \<bar>of_int i\<bar>" by simp
  have "\<bar>rat_of_int i\<bar> < 10 ^ 15"
    using assms by (metis of_int_abs of_int_less_iff of_int_numeral of_int_power)
  then have "(0::nat) \<in> set [0..<21] \<and> of_int \<lfloor>rat_of_int i * 10 ^ 0\<rfloor> = rat_of_int i * 10 ^ 0
      \<and> \<bar>rat_of_int i * 10 ^ 0\<bar> < 10 ^ 15"
    by simp
  then have "\<exists>f \<in> set [0..<21]. of_int \<lfloor>rat_of_int i * 10 ^ f\<rfloor> = rat_of_int i * 10 ^ f
      \<and> \<bar>rat_of_int i * 10 ^ f\<bar> < 10 ^ 15"
    by (rule_tac x = 0 in bexI) simp_all
  with low show ?thesis
    unfolding exact_number_def by simp
qed

lemma canonical_integer_print_parse:
  assumes "canonical_integer s"
  shows "number_to_string (parseInt s) = s" and "number_to_string (parseFloat s) = s"
    and "exact_number (parseFloat s)"
proof -
  consider "s = ''0''" | "plain_digits s" | ds where "s = CHR ''-'' # ds" "plain_digits ds"
    using assms by (cases s) (auto simp: canonical_integer_def)
  then have "number_to_string (parseInt s) = s \<and> number_to_string (parseFloat s) = s
      \<and> exact_number (parseFloat s)"
  proof cases
    case 1
    have "parseInt ''0'' = Fin 0" and "parseFloat ''0'' = Fin 0"
      using parseInt_digits(1) [of "''0''"] parseFloat_digits(1) [of "''0''"]
      by (simp_all add: is_digit_def digits_value_def digit_value_def)
    with 1 show ?thesis
      by (simp add: number_to_string_def exact_number_def)
  next
    case 2
    then have "s \<noteq> []" and "list_all is_digit s"
      by (simp_all add: plain_digits_def)
    then have "parseInt s = Fin (of_nat (digits_value s))"
      and "parseFloat s = Fin (of_nat (digits_value s))"
      by (simp_all add: parseInt_digits parseFloat_digits)
    moreover have "exact_number (Fin (of_int (int (digits_value s))))"
      using plain_digits_value(2) [OF 2] by (intro exact_number_int) simp
    ultimately show ?thesis
      using plain_digits_value [OF 2] by (simp add: number_to_string_nat)
  next
    case 3
    then have "ds \<noteq> []" and "list_all is_digit ds"
      by (simp_all add: plain_digits_def)
    then have "parseInt s = Fin (- of_nat (digits_value ds))"
      and "parseFloat s = Fin (- of_nat (digits_value ds))"
      using 3(1) by (simp_all add: parseInt_digits parseFloat_digits)
    moreover have "exact_number (Fin (of_int (- int (digits_value ds))))"
      using plain_digits_value(2) [OF 3(2)] by (intro exact_number_int) simp
    ultimately show ?thesis
      using plain_digits_value [OF 3(2)] 3(1)
      by (simp add: number_to_string_nat)
  qed
  then show "number_to_string (parseInt s) = s" and "number_to_string (parseFloat s) = s"
    and "exact_number (parseFloat s)"
    by simp_all
qed

lemma decimal_scale_result:
  assumes "decimal_scale fuel q f0 = (m, f)" and "f' \<le> fuel"
    and "of_int \<lfloor>q * 10 ^ f'\<rfloor> = q * 10 ^ f'"
  shows "f0 \<le> f \<and> of_int m = q * 10 ^ (f - f0) \<and> (f0 < f \<longrightarrow> \<not> 10 dvd m) \<and> f - f0 \<le> f'"
  using assms
proof (induction fuel q f0 arbitrary: f' rule: decimal_scale.induct)
  case (1 q f)
  then show ?case by simp
next
  case (2 fuel q f0)
  show ?case
  proof (cases "of_int \<lfloor>q\<rfloor> = q")
    case True
    with "2.prems" show ?thesis by auto
  next
    case False
    with "2.prems" have res: "decimal_scale fuel (q * 10) (Suc f0) = (m, f)" by simp
    from False "2.prems" obtain g where g: "f' = Suc g"
      by (cases f') simp_all
    with "2.prems" have "g \<le> fuel" and "of_int \<lfloor>q * 10 * 10 ^ g\<rfloor> = q * 10 * 10 ^ g"
      by (simp_all add: mult.assoc)
    from "2.IH" [OF False res this]
    have ih: "Suc f0 \<le> f" "of_int m = q * 10 * 10 ^ (f - Suc f0)"
      "Suc f0 < f \<longrightarrow> \<not> 10 dvd m" "f - Suc f0 \<le> g"
      by simp_all
    from ih(1) have pow: "(10::rat) * 10 ^ (f - Suc f0) = 10 ^ (f - f0)"
      by (metis Suc_diff_Suc Suc_le_lessD power_Suc)
    have "\<not> 10 dvd m"
    proof (cases "Suc f0 < f")
      case True
      with ih(3) show ?thesis by simp
    next
      case False
      with ih(1,2) have m: "of_int m = q * 10" by simp
      show ?thesis
      proof
        assume "10 dvd m"
        then obtain j where "m = 10 * j" ..
        with m have "q = of_int j" by simp
        with \<open>of_int \<lfloor>q\<rfloor> \<noteq> q\<close> show False by simp
      qed
    qed
    with ih g pow show ?thesis
      by (auto simp: mult.assoc)
  qed
qed


lemma digits_of_last: "last (digits_of n) = ''0123456789'' ! (n mod 10)"
  by (subst digits_of.simps) (simp add: digits_of_not_Nil)

lemma digit_char_zero: "d < 10 \<Longrightarrow> ''0123456789'' ! d = CHR ''0'' \<longleftrightarrow> d = 0"
  by (erule digit_cases) simp_all

lemma digits_of_no_trailing_zero:
  assumes "\<not> 10 dvd n"
  shows "rev (dropWhile (\<lambda>c. c = CHR ''0'') (rev (digits_of n))) = digits_of n"
proof -
  from assms have "n mod 10 \<noteq> 0" by (simp add: dvd_eq_mod_eq_0)
  moreover have "''0123456789'' ! (n mod 10) = CHR ''0'' \<longleftrightarrow> n mod 10 = 0"
    by (rule digit_char_zero) simp
  ultimately have "last (digits_of n) \<noteq> CHR ''0''"
    by (metis digits_of_last)
  then have "hd (rev (digits_of n)) \<noteq> CHR ''0''"
    by (simp add: hd_rev digits_of_not_Nil)
  then have "dropWhile (\<lambda>c. c = CHR ''0'') (rev (digits_of n)) = rev (digits_of n)"
    using digits_of_not_Nil [of n] by (cases "rev (digits_of n)") simp_all
  then show ?thesis by simp
qed

lemma digits_of_bound: "n < 10 ^ length (digits_of n)"
  using digits_value_bound [OF digits_of_all_digits, of n] by (simp add: digits_value_digits_of)

lemma digits_value_leading_zeros:
  "digits_value (replicate j (CHR ''0'') @ ds) = digits_value ds"
proof -
  have "foldl (\<lambda>a c. 10 * a + digit_value c) 0 (replicate j (CHR ''0'')) = 0"
    by (induction j) (simp_all add: digit_value_def)
  then show ?thesis
    by (simp add: digits_value_def)
qed

lemma parseFloat_fraction:
  assumes "I \<noteq> []" and "list_all is_digit I" and "list_all is_digit F"
  shows "parseFloat (I @ CHR ''.'' # F)
      = Fin (of_nat (digits_value (I @ F)) / 10 ^ length F)"
    and "parseFloat (CHR ''-'' # I @ CHR ''.'' # F)
      = Fin (- (of_nat (digits_value (I @ F)) / 10 ^ length F))"
proof -
  let ?s = "I @ CHR ''.'' # F"
  from assms have hd: "is_digit (hd I)" and hd_s: "hd ?s = hd I" and ne: "?s \<noteq> []"
    by (cases I; simp)+
  have not_digit: "\<not> is_digit (CHR ''.'')"
    by (simp add: is_digit_def)
  have inf: "\<not> prefix ''Infinity'' ?s"
    using ne hd_s is_digit_not_sign [OF hd] by (simp add: not_Infinity_prefix)
  have ws: "skip_white_space ?s = ?s"
    using hd hd_s by (intro skip_white_space_visible) (simp add: is_digit_visible)
  have sign: "drop_sign ?s = ?s" "\<not> is_negative ?s"
    using is_digit_not_sign [OF hd] hd_s ne by (simp_all add: drop_sign_def is_negative_def)
  have take: "takeWhile is_digit ?s = I" and drop: "dropWhile is_digit ?s = CHR ''.'' # F"
    using assms(2) not_digit
    by (simp_all add: list_all_iff takeWhile_append2 dropWhile_append2)
  have scaled: "scale10 (of_nat (digits_value (I @ F))) (- int (length F))
      = of_nat (digits_value (I @ F)) / 10 ^ length F"
    by (simp add: scale10_def)
  show "parseFloat ?s = Fin (of_nat (digits_value (I @ F)) / 10 ^ length F)"
    using assms inf scaled
    by (simp add: parseFloat_def Let_def ws sign take drop takeWhile_all_digits
        dropWhile_all_digits signed_def exponent_part_def)
  have ws': "skip_white_space (CHR ''-'' # ?s) = CHR ''-'' # ?s"
    by (rule skip_white_space_visible) simp
  show "parseFloat (CHR ''-'' # ?s) = Fin (- (of_nat (digits_value (I @ F)) / 10 ^ length F))"
    using assms inf scaled
    by (simp add: parseFloat_def Let_def ws' take drop takeWhile_all_digits
        dropWhile_all_digits signed_def exponent_part_def drop_sign_def is_negative_def)
qed

lemma positive_print_parse:
  assumes pos: "0 < q" and low: "1 / 10 ^ 6 \<le> q"
    and f': "f' \<le> 20" "of_int \<lfloor>q * 10 ^ f'\<rfloor> = q * 10 ^ f'" "q * 10 ^ f' < 10 ^ 15"
  shows "parseFloat (positive_to_string q) = Fin q
    \<and> parseFloat (CHR ''-'' # positive_to_string q) = Fin (- q)
    \<and> positive_to_string q \<noteq> [] \<and> is_digit (hd (positive_to_string q))"
proof -
  obtain m f where scale: "decimal_scale 1100 q 0 = (m, f)"
    by (cases "decimal_scale 1100 q 0")
  from decimal_scale_result [OF scale _ f'(2)] f'(1)
  have m: "of_int m = q * 10 ^ f" and odd: "0 < f \<longrightarrow> \<not> 10 dvd m" and f: "f \<le> f'"
    by simp_all
  from m pos have "0 < (of_int m :: rat)" by simp
  then have m_pos: "0 < m" by simp
  define N where "N = nat m"
  with m_pos have N: "m = int N" "0 < N" by simp_all
  have "q * 10 ^ f \<le> q * 10 ^ f'"
    using pos f by (simp add: power_increasing)
  with m f'(3) have "(of_int m :: rat) < 10 ^ 15" by simp
  then have "m < 10 ^ 15"
    by (metis of_int_less_iff of_int_numeral of_int_power)
  with N have N_small: "N < 10 ^ 15" by simp
  let ?ds = "digits_of N"
  have len: "length ?ds \<le> 15"
    using N_small by (intro digits_of_length) simp_all
  have digits: "?ds \<noteq> []" "list_all is_digit ?ds"
    by (simp_all add: digits_of_not_Nil digits_of_all_digits)
  then have hd: "is_digit (hd ?ds)"
    by (cases ?ds) simp_all
  have q: "q = of_nat N / 10 ^ f"
    using m N by (simp add: field_simps)
  show ?thesis
  proof (cases "f = 0")
    case True
    with q have "q = of_nat N" by simp
    moreover have "positive_to_string (of_nat N) = ?ds"
      using len by (intro positive_to_string_nat) simp
    ultimately show ?thesis
      using digits hd by (simp add: parseFloat_digits digits_value_digits_of)
  next
    case False
    with odd N have "\<not> 10 dvd N"
      by (metis int_dvd_int_iff of_nat_numeral zero_less_iff_neq_zero)
    then have strip: "rev (dropWhile (\<lambda>c. c = CHR ''0'') (rev ?ds)) = ?ds"
      by (rule digits_of_no_trailing_zero)
    then have strip_len: "length (dropWhile (\<lambda>c. c = CHR ''0'') (rev ?ds)) = length ?ds"
      by (metis length_rev)
    define n where "n = int (length ?ds) - int f"
    have "(10::rat) ^ f \<le> of_nat N * 10 ^ 6"
      using low q by (simp add: field_simps)
    also have "\<dots> < 10 ^ length ?ds * 10 ^ 6"
      using digits_of_bound [of N]
      by (metis mult_less_cancel_right_pos of_nat_less_iff of_nat_numeral of_nat_power
          zero_less_numeral zero_less_power)
    finally have "(10::rat) ^ f < 10 ^ (length ?ds + 6)"
      by (simp add: power_add)
    then have "f < length ?ds + 6"
      by (simp add: power_strict_increasing_iff)
    then have n_low: "- 6 < n"
      by (simp add: n_def)
    have n_high: "n \<le> 21" "\<not> int (length ?ds) \<le> n"
      using len False by (simp_all add: n_def)
    have out: "positive_to_string q =
        (if 0 < n then take (nat n) ?ds @ ''.'' @ drop (nat n) ?ds
         else ''0.'' @ replicate (nat (- n)) (CHR ''0'') @ ?ds)"
      using n_low n_high \<open>f \<noteq> 0\<close>
      by (simp add: positive_to_string_def Let_def scale N strip strip_len n_def [symmetric])
    show ?thesis
    proof (cases "0 < n")
      case True
      let ?I = "take (nat n) ?ds" and ?F = "drop (nat n) ?ds"
      have I: "?I \<noteq> []" "list_all is_digit ?I" and F: "list_all is_digit ?F"
        using True digits by (auto simp: list_all_iff dest: in_set_takeD in_set_dropD)
      have "length ?F = f"
        using True by (simp add: n_def)
      moreover have "hd ?I = hd ?ds"
        using True digits by (cases ?ds) (simp_all add: take_Cons split: nat.splits)
      ultimately show ?thesis
        using True out q hd I parseFloat_fraction [OF I F]
        by (simp add: digits_value_digits_of)
    next
      case False
      let ?F = "replicate (nat (- n)) (CHR ''0'') @ ?ds"
      have zero: "is_digit (CHR ''0'')" by (simp add: is_digit_def)
      have I: "''0'' \<noteq> []" "list_all is_digit ''0''" and F: "list_all is_digit ?F"
        using digits zero by (auto simp: list_all_iff)
      have "length ?F = f"
        using False by (simp add: n_def)
      moreover have "digits_value (''0'' @ ?F) = N"
        using digits_value_leading_zeros [of "Suc (nat (- n))" ?ds]
        by (simp add: digits_value_digits_of)
      ultimately show ?thesis
        using False out q zero parseFloat_fraction [OF I F]
        by simp
    qed
  qed
qed

lemma exact_number_parse_print:
  assumes "exact_number n"
  shows "parseFloat (number_to_string n) = n"
    and "number_to_string n \<noteq> ''-''" and "number_to_string n \<noteq> ''--''"
proof -
  have "parseFloat (number_to_string n) = n \<and> number_to_string n \<noteq> ''-''
      \<and> number_to_string n \<noteq> ''--''"
  proof (cases n)
    case NaN
    have "parseFloat ''NaN'' = NaN" by code_simp
    with NaN show ?thesis by (simp add: number_to_string_def)
  next
    case PosInfinity
    have "parseFloat ''Infinity'' = PosInfinity" by code_simp
    with PosInfinity show ?thesis by (simp add: number_to_string_def)
  next
    case NegInfinity
    have "parseFloat ''-Infinity'' = NegInfinity" by code_simp
    with NegInfinity show ?thesis by (simp add: number_to_string_def)
  next
    case (Fin q)
    show ?thesis
    proof (cases "q = 0")
      case True
      have "parseFloat ''0'' = Fin 0" by code_simp
      with True Fin show ?thesis by (simp add: number_to_string_def)
    next
      case False
      with assms Fin have low: "1 / 10 ^ 6 \<le> \<bar>q\<bar>"
        and "\<exists>f \<in> set [0..<21]. of_int \<lfloor>q * 10 ^ f\<rfloor> = q * 10 ^ f \<and> \<bar>q * 10 ^ f\<bar> < 10 ^ 15"
        unfolding exact_number_def by simp_all
      then obtain f where "f \<in> set [0..<21]"
        and int: "of_int \<lfloor>q * 10 ^ f\<rfloor> = q * 10 ^ f" and small: "\<bar>q * 10 ^ f\<bar> < 10 ^ 15"
        by blast
      then have f: "f \<le> 20" by simp
      have abs_eq: "\<bar>q\<bar> * 10 ^ f = \<bar>q * 10 ^ f\<bar>"
        by (simp add: abs_mult)
      from int obtain i where "q * 10 ^ f = of_int i"
        by metis
      then have "\<bar>q * 10 ^ f\<bar> = of_int \<bar>i\<bar>"
        by simp
      then have "of_int \<lfloor>\<bar>q * 10 ^ f\<bar>\<rfloor> = \<bar>q * 10 ^ f\<bar>"
        by (metis of_int_floor_cancel)
      with small have abs: "of_int \<lfloor>\<bar>q\<bar> * 10 ^ f\<rfloor> = \<bar>q\<bar> * 10 ^ f" "\<bar>q\<bar> * 10 ^ f < 10 ^ 15"
        unfolding abs_eq by simp_all
      from False have "0 < \<bar>q\<bar>" by simp
      from positive_print_parse [OF this low f abs]
      have parse: "parseFloat (positive_to_string \<bar>q\<bar>) = Fin \<bar>q\<bar>"
        "parseFloat (CHR ''-'' # positive_to_string \<bar>q\<bar>) = Fin (- \<bar>q\<bar>)"
        and ne: "positive_to_string \<bar>q\<bar> \<noteq> []" and hd: "is_digit (hd (positive_to_string \<bar>q\<bar>))"
        by simp_all
      from ne hd is_digit_not_sign [OF hd] have "positive_to_string \<bar>q\<bar> \<noteq> ''-''"
        and "positive_to_string \<bar>q\<bar> \<noteq> ''--''"
        by auto
      with parse ne False Fin show ?thesis
        by (cases "q < 0") (auto simp: number_to_string_def)
    qed
  qed
  then show "parseFloat (number_to_string n) = n"
    and "number_to_string n \<noteq> ''-''" and "number_to_string n \<noteq> ''--''"
    by simp_all
qed

lemma parse_no_number:
  assumes "s = [] \<or> is_letter (hd s)"
  shows "parseInt s = NaN" and "hd s \<noteq> CHR ''I'' \<Longrightarrow> parseFloat s = NaN"
proof -
  have ws: "skip_white_space s = s"
    using assms by (intro skip_white_space_visible) (auto simp: is_letter_def)
  have sign: "drop_sign s = s"
    using assms by (auto simp: drop_sign_def is_letter_def)
  have digits: "takeWhile is_digit s = []" and rest: "dropWhile is_digit s = s"
    using assms by (cases s; auto simp: is_letter_def is_digit_def)+
  show "parseInt s = NaN"
    by (simp add: parseInt_def Let_def ws sign digits)
  have point: "\<not> (s \<noteq> [] \<and> hd s = CHR ''.'')"
    using assms by (auto simp: is_letter_def)
  show "parseFloat s = NaN" if "hd s \<noteq> CHR ''I''"
  proof -
    have "\<not> prefix ''Infinity'' s"
      using that by (cases s) simp_all
    then show ?thesis
      using point by (auto simp: parseFloat_def Let_def ws sign digits rest)
  qed
qed

text \<open>
  Claim C5, as the code has it. For the \<^verbatim>\<open>int\<close> kind, formatting the parse of a decimal
  integer in canonical form gives the text back. For the \<^verbatim>\<open>bool\<close> kind, formatting
  the parse gives \<^verbatim>\<open>'1'\<close> for each of the three values that parse to true
  (\<^verbatim>\<open>'true'\<close>, \<^verbatim>\<open>1\<close>, \<^verbatim>\<open>true\<close>) and \<^verbatim>\<open>'0'\<close> for \<^verbatim>\<open>'0'\<close>, \<^verbatim>\<open>0\<close>, \<^verbatim>\<open>false\<close>, \<^verbatim>\<open>null\<close> and
  \<^verbatim>\<open>undefined\<close>: the text \<^verbatim>\<open>'0'\<close> is given back, the text \<^verbatim>\<open>'true'\<close> is not.
\<close>

theorem int_bool_format_parse:
  "(canonical_integer s \<longrightarrow> FORMATTER_int (PARSER_int (JStr s)) = JStr s)
   \<and> (x \<in> {JStr ''true'', JNum (Fin 1), JBool True}
        \<longrightarrow> FORMATTER_bool (PARSER_bool x) = JStr ''1'')
   \<and> (x \<in> {JStr ''0'', JNum (Fin 0), JBool False, JNull, JUndefined}
        \<longrightarrow> FORMATTER_bool (PARSER_bool x) = JStr ''0'')"
proof -
  have "FORMATTER_int (PARSER_int (JStr s)) = JStr s" if "canonical_integer s"
    using canonical_integer_print_parse(1) [OF that]
    by (simp add: FORMATTER_int_def PARSER_int_def)
  then show ?thesis
    by (auto simp: FORMATTER_bool_def PARSER_bool_def)
qed

theorem int_bool_format_parse_witness:
  "canonical_integer ''-42''
   \<and> FORMATTER_int (PARSER_int (JStr ''-42'')) = JStr ''-42''
   \<and> FORMATTER_bool (PARSER_bool (JBool True)) = JStr ''1''
   \<and> FORMATTER_bool (PARSER_bool (JStr ''0'')) = JStr ''0''"
proof -
  have c: "canonical_integer ''-42''"
    by (simp add: canonical_integer_def plain_digits_def is_digit_def)
  show ?thesis
    using c int_bool_format_parse [of "''-42''" "JBool True"]
      int_bool_format_parse [of "''-42''" "JStr ''0''"]
    by simp
qed

text \<open>
  Claim C5 as stated fails for the \<^verbatim>\<open>bool\<close> kind: \<^verbatim>\<open>'true'\<close> parses to true, and true is
  formatted as \<^verbatim>\<open>'1'\<close>.
\<close>

theorem bool_true_not_restored:
  "FORMATTER_bool (PARSER_bool (JStr ''true'')) = JStr ''1''
   \<and> FORMATTER_bool (PARSER_bool (JStr ''true'')) \<noteq> JStr ''true''"
  by (simp add: FORMATTER_bool_def PARSER_bool_def)

text \<open>
  Claim C6, as the code has it. For \<^verbatim>\<open>null\<close>, \<^verbatim>\<open>undefined\<close> and the sentinels \<^verbatim>\<open>'-'\<close> and
  \<^verbatim>\<open>'--'\<close> the parse is \<^verbatim>\<open>null\<close>, but the parse of its formatted form is \<^verbatim>\<open>NaN\<close>. For
  every other value whose parse is \<^verbatim>\<open>NaN\<close>, an infinity, zero or a decimal number of at
  most 15 significant digits with a magnitude from \<open>10\<^sup>-\<^sup>6\<close> up to \<open>10\<^sup>1\<^sup>5\<close>, parsing the
  formatted form of the parse gives the parse again.
\<close>

theorem temperature_parse_format_parse:
  "(x \<in> {JNull, JUndefined, JStr ''-'', JStr ''--''}
      \<longrightarrow> PARSER_temperature x = JNull
        \<and> PARSER_temperature (FORMATTER_temperature (PARSER_temperature x)) = JNum NaN)
   \<and> (y \<notin> {JNull, JUndefined, JStr ''-'', JStr ''--''} \<and> exact_number (parseFloat (ToString y))
      \<longrightarrow> PARSER_temperature y = JNum (parseFloat (ToString y))
        \<and> PARSER_temperature (FORMATTER_temperature (PARSER_temperature y))
          = PARSER_temperature y)"
proof -
  have null: "parseFloat ''null'' = NaN" by code_simp
  have "PARSER_temperature x = JNull
        \<and> PARSER_temperature (FORMATTER_temperature (PARSER_temperature x)) = JNum NaN"
    if "x \<in> {JNull, JUndefined, JStr ''-'', JStr ''--''}"
    using that null by (auto simp: PARSER_temperature_def FORMATTER_temperature_def)
  moreover have "PARSER_temperature y = JNum (parseFloat (ToString y))
        \<and> PARSER_temperature (FORMATTER_temperature (PARSER_temperature y))
          = PARSER_temperature y"
    if "y \<notin> {JNull, JUndefined, JStr ''-'', JStr ''--''}"
      and "exact_number (parseFloat (ToString y))"
    using that(1) exact_number_parse_print [OF that(2)]
    by (simp add: PARSER_temperature_def FORMATTER_temperature_def)
  ultimately show ?thesis by blast
qed

theorem temperature_parse_format_parse_witness:
  "PARSER_temperature (JStr ''--'') = JNull
   \<and> PARSER_temperature (FORMATTER_temperature (PARSER_temperature (JStr ''--'')))
        = JNum NaN
   \<and> exact_number (parseFloat ''24.5'')
   \<and> PARSER_temperature (JStr ''24.5'') = JNum (Fin (49 / 2))
   \<and> FORMATTER_temperature (JNum (Fin (49 / 2))) = JStr ''24.5''
   \<and> PARSER_temperature (FORMATTER_temperature (PARSER_temperature (JStr ''24.5'')))
        = JNum (Fin (49 / 2))"
proof -
  have p: "parseFloat ''24.5'' = Fin (49 / 2)" by code_simp
  have e: "exact_number (parseFloat ''24.5'')" by code_simp
  have v: "PARSER_temperature (JStr ''24.5'') = JNum (Fin (49 / 2))"
    by (simp add: PARSER_temperature_def p)
  have f: "FORMATTER_temperature (JNum (Fin (49 / 2))) = JStr ''24.5''" by code_simp
  have "PARSER_temperature (JStr ''--'') = JNull"
    and "PARSER_temperature (FORMATTER_temperature (PARSER_temperature (JStr ''--'')))
        = JNum NaN"
    using temperature_parse_format_parse [of "JStr ''--''" "JStr ''24.5''"] by blast+
  moreover have "JStr ''24.5'' \<notin> {JNull, JUndefined, JStr ''-'', JStr ''--''}"
    and "exact_number (parseFloat (ToString (JStr ''24.5'')))"
    using e by simp_all
  then have "PARSER_temperature (FORMATTER_temperature (PARSER_temperature (JStr ''24.5'')))
        = PARSER_temperature (JStr ''24.5'')"
    using temperature_parse_format_parse [of "JStr ''--''" "JStr ''24.5''"] by blast
  ultimately show ?thesis
    using e v f by simp
qed

text \<open>
  Claim C6 as stated fails at the sentinel \<^verbatim>\<open>'-'\<close>: its parse is \<^verbatim>\<open>null\<close>, and the parse
  of the formatted \<^verbatim>\<open>null\<close> is \<^verbatim>\<open>NaN\<close>.
\<close>

theorem temperature_sentinel_not_idempotent:
  "PARSER_temperature (JStr ''-'') = JNull
   \<and> PARSER_temperature (FORMATTER_temperature (PARSER_temperature (JStr ''-''))) = JNum NaN
   \<and> PARSER_temperature (FORMATTER_temperature (PARSER_temperature (JStr ''-'')))
       \<noteq> PARSER_temperature (JStr ''-'')"
proof -
  have "parseFloat ''null'' = NaN" by code_simp
  then show ?thesis
    by (simp add: PARSER_temperature_def FORMATTER_temperature_def)
qed

text \<open>
  Claim C7, as the code has it. Each parse function returns a value for every input:
  \<^verbatim>\<open>int\<close> a number, \<^verbatim>\<open>temperature\<close> \<^verbatim>\<open>null\<close> or a number, \<^verbatim>\<open>bool\<close> a boolean. A
  missing field (\<^verbatim>\<open>null\<close> or \<^verbatim>\<open>undefined\<close>) gives \<^verbatim>\<open>0\<close>, \<^verbatim>\<open>null\<close> and \<^verbatim>\<open>false\<close>; the
  sentinels give \<^verbatim>\<open>null\<close> for \<^verbatim>\<open>temperature\<close>; every text but \<^verbatim>\<open>'true'\<close> and \<^verbatim>\<open>'1'\<close>
  gives \<^verbatim>\<open>false\<close> for \<^verbatim>\<open>bool\<close>. An invalid text, however, is not turned into the default
  by \<^verbatim>\<open>int\<close> and \<^verbatim>\<open>temperature\<close>: the empty text and every text that starts with
  a letter (other than \<^verbatim>\<open>I\<close> for \<^verbatim>\<open>temperature\<close>, where \<^verbatim>\<open>Infinity\<close> is a number) parse
  to \<^verbatim>\<open>NaN\<close>.
\<close>

theorem parse_results:
  "PARSER_int JNull = JNum (Fin 0) \<and> PARSER_int JUndefined = JNum (Fin 0)
   \<and> (s = [] \<or> is_letter (hd s) \<longrightarrow> PARSER_int (JStr s) = JNum NaN)
   \<and> PARSER_temperature JNull = JNull \<and> PARSER_temperature JUndefined = JNull
   \<and> PARSER_temperature (JStr ''-'') = JNull \<and> PARSER_temperature (JStr ''--'') = JNull
   \<and> (s = [] \<or> is_letter (hd s) \<and> hd s \<noteq> CHR ''I''
        \<longrightarrow> PARSER_temperature (JStr s) = JNum NaN)
   \<and> PARSER_bool JNull = JBool False \<and> PARSER_bool JUndefined = JBool False
   \<and> (s \<noteq> ''true'' \<and> s \<noteq> ''1'' \<longrightarrow> PARSER_bool (JStr s) = JBool False)
   \<and> (\<exists>n. PARSER_int x = JNum n)
   \<and> (PARSER_temperature x = JNull \<or> (\<exists>n. PARSER_temperature x = JNum n))
   \<and> (\<exists>b. PARSER_bool x = JBool b)"
proof -
  have "PARSER_int (JStr s) = JNum NaN" if "s = [] \<or> is_letter (hd s)"
    using parse_no_number(1) [OF that] by (simp add: PARSER_int_def)
  moreover have "PARSER_temperature (JStr s) = JNum NaN"
    if "s = [] \<or> is_letter (hd s) \<and> hd s \<noteq> CHR ''I''"
  proof -
    from that have "s = [] \<or> is_letter (hd s)" and "s \<noteq> ''-''" and "s \<noteq> ''--''"
      by (auto simp: is_letter_def)
    moreover have "parseFloat [] = NaN"
      by code_simp
    ultimately show ?thesis
      using that parse_no_number(2) [of s] by (auto simp: PARSER_temperature_def)
  qed
  ultimately show ?thesis
    by (simp add: PARSER_int_def PARSER_temperature_def PARSER_bool_def)
qed

theorem parse_results_witness:
  "is_letter (hd ''junk'')
   \<and> PARSER_int (JStr ''junk'') = JNum NaN
   \<and> PARSER_temperature (JStr ''junk'') = JNum NaN
   \<and> PARSER_bool (JStr ''junk'') = JBool False
   \<and> PARSER_int (JStr '''') = JNum NaN
   \<and> PARSER_temperature (JStr '''') = JNum NaN
   \<and> PARSER_bool (JStr '''') = JBool False"
proof -
  have l: "is_letter (hd ''junk'')"
    by (simp add: is_letter_def)
  show ?thesis
    using l parse_results [of "''junk''" JNull] parse_results [of "''''" JNull]
    by simp
qed

text \<open>
  Claim C7 as stated fails: the empty text parses to \<^verbatim>\<open>NaN\<close> under \<^verbatim>\<open>int\<close>, not to
  \<^verbatim>\<open>0\<close>, and \<^verbatim>\<open>junk\<close> parses to \<^verbatim>\<open>NaN\<close> under \<^verbatim>\<open>temperature\<close>, not to \<^verbatim>\<open>null\<close>.
\<close>

theorem invalid_number_is_NaN:
  "PARSER_int (JStr '''') = JNum NaN \<and> PARSER_int (JStr '''') \<noteq> JNum (Fin 0)
   \<and> PARSER_temperature (JStr ''junk'') = JNum NaN
   \<and> PARSER_temperature (JStr ''junk'') \<noteq> JNull"
proof -
  have "parseInt '''' = NaN" and "parseFloat ''junk'' = NaN" by code_simp+
  then show ?thesis
    by (simp add: PARSER_int_def PARSER_temperature_def)
qed

text \<open>
  Claim C10. The \<^verbatim>\<open>temperature\<close> formatter turns \<^verbatim>\<open>null\<close> into the four characters
  \<^verbatim>\<open>null\<close>, neither \<^verbatim>\<open>-\<close> nor \<^verbatim>\<open>--\<close>, and the parser reads that text as \<^verbatim>\<open>NaN\<close>,
  not as \<^verbatim>\<open>null\<close>.
\<close>

theorem temperature_null_is_not_restored:
  "FORMATTER_temperature JNull = JStr ''null''
   \<and> PARSER_temperature (JStr ''null'') = JNum NaN"
proof -
  have "parseFloat ''null'' = NaN" by code_simp
  then show ?thesis
    by (simp add: PARSER_temperature_def FORMATTER_temperature_def)
qed

section \<open>A response, end to end\<close>

text \<open>
  The control state of a unit that is switched on, as \<^verbatim>\<open>get_control_info\<close> returns it.
  The fields of the schema that the response lacks get their defaults. The text \<^verbatim>\<open>1\<close>
  of \<^verbatim>\<open>pow\<close> is none of the three values that \<^verbatim>\<open>PARSER.bool\<close> takes for true.
\<close>

lemma control_info_example:
  "get_control_info (Some ''ac'') (\<lambda>sent req. Inr ''ret=OK,pow=1,mode=3,stemp=24.0,shum=-'') []
   = (Inr [''pow'' \<mapsto> JBool False, ''mode'' \<mapsto> JNum (Fin 3), ''stemp'' \<mapsto> JNum (Fin 24),
           ''shum'' \<mapsto> JNull, ''alert'' \<mapsto> JNum (Fin 0), ''b_mode'' \<mapsto> JNum (Fin 0),
           ''b_shum'' \<mapsto> JNull],
      [\<lparr>uri = ''http://ac/aircon/get_control_info'', headers = None, qs = None\<rparr>])"
proof -
  have raw: "get_raw_control_info (Some ''ac'')
      (\<lambda>(sent :: request list) (req :: request). Inr ''ret=OK,pow=1,mode=3,stemp=24.0,shum=-'') []
    = (Inr [''pow'' \<mapsto> JStr ''1'', ''mode'' \<mapsto> JStr ''3'', ''stemp'' \<mapsto> JStr ''24.0'',
            ''shum'' \<mapsto> JStr ''-''],
       [\<lparr>uri = ''http://ac/aircon/get_control_info'', headers = None, qs = None\<rparr>])"
    by (simp add: get_raw_control_info_def send_request_def decode_response_def Let_def
        RET_MSG_OK_def RET_MSG_PARAM_NG_def RET_MSG_ADV_NG_def decode_parts_def
        decode_part_def collect_pairs_def store_text_def)
  have parsed: "PARSER_int (JStr ''3'') = JNum (Fin 3)" "PARSER_int JUndefined = JNum (Fin 0)"
    "PARSER_temperature (JStr ''24.0'') = JNum (Fin 24)" "PARSER_temperature (JStr ''-'') = JNull"
    "PARSER_temperature JUndefined = JNull" "PARSER_bool (JStr ''1'') = JBool False"
    by code_simp+
  have "parse_control_info [''pow'' \<mapsto> JStr ''1'', ''mode'' \<mapsto> JStr ''3'',
      ''stemp'' \<mapsto> JStr ''24.0'', ''shum'' \<mapsto> JStr ''-'']
    = [''pow'' \<mapsto> JBool False, ''mode'' \<mapsto> JNum (Fin 3), ''stemp'' \<mapsto> JNum (Fin 24),
           ''shum'' \<mapsto> JNull, ''alert'' \<mapsto> JNum (Fin 0), ''b_mode'' \<mapsto> JNum (Fin 0),
           ''b_shum'' \<mapsto> JNull]"
    by (rule ext) (simp add: parse_control_info_def parse_data_def ctrl_formats_def get_prop_def
        parsed)
  with raw show ?thesis
    by (simp add: get_control_info_def)
qed

end
